theory Spec2Isabelle
  imports Complex_Main "HOL-Library.Word"
begin

unbundle bit_operations_syntax

section \<open>Python values shared by the modules\<close>

text \<open>
  Python integers are unbounded, so they are \<^typ>\<open>int\<close>; Python's \<^verbatim>\<open>//\<close> rounds
  towards minus infinity, as \<^const>\<open>divide\<close> on \<^typ>\<open>int\<close> (written \<open>div\<close>) does.
  An exception that leaves a function is a value \<open>Inl e\<close> of a sum type.
\<close>

datatype exn = AttributeError | IndexError | TypeError | ValueError | ZeroDivisionError

section \<open>touch\_cal.py: the calibration table\<close>

text \<open>The dictionary \<^verbatim>\<open>CAL\<close>, one field per key.\<close>

record cal =
  RAW_X_LEFT :: int
  RAW_X_RIGHT :: int
  RAW_Y_TOP :: int
  RAW_Y_BOT :: int
  H :: int
  W :: int
  SWAP_XY :: bool
  FLIP_X :: bool
  FLIP_Y :: bool
  P_MAX :: int
  SAMPLES :: int

definition CAL :: cal where
  "CAL = \<lparr>RAW_X_LEFT = 332, RAW_X_RIGHT = 1616, RAW_Y_TOP = 284, RAW_Y_BOT = 1576,
     H = 320, W = 480, SWAP_XY = True, FLIP_X = True, FLIP_Y = False,
     P_MAX = 250, SAMPLES = 15\<rparr>"

section \<open>ui.py: the button hit test\<close>

text \<open>
  The geometry and label of \<^verbatim>\<open>Button\<close>; the callback \<^verbatim>\<open>on_press\<close> plays no part
  in the hit test and is kept by the screens that own the button.
\<close>

record button =
  btn_x :: int
  btn_y :: int
  btn_w :: int
  btn_h :: int
  btn_label :: string

text \<open>
  \<^verbatim>\<open>return (self.x <= px < self.x + self.w) and (self.y <= py < self.y + self.h)\<close>:
  a chained comparison \<^verbatim>\<open>a <= b < c\<close> is \<^verbatim>\<open>a <= b and b < c\<close>.
\<close>

definition contains :: "button \<Rightarrow> int \<Rightarrow> int \<Rightarrow> bool" where
  "contains b px py \<longleftrightarrow>
     (btn_x b \<le> px \<and> px < btn_x b + btn_w b) \<and> (btn_y b \<le> py \<and> py < btn_y b + btn_h b)"

section \<open>main.py: touch mapping\<close>

definition clamp :: "int \<Rightarrow> int \<Rightarrow> int \<Rightarrow> int" where
  "clamp v lo hi = (if v < lo then lo else if v > hi then hi else v)"

definition map_linear :: "int \<Rightarrow> int \<Rightarrow> int \<Rightarrow> int \<Rightarrow> int \<Rightarrow> int" where
  "map_linear raw raw_min raw_max out_min out_max =
     (if raw_max = raw_min then out_min
      else clamp ((raw - raw_min) * (out_max - out_min) div (raw_max - raw_min) + out_min)
             (min out_min out_max) (max out_min out_max))"

text \<open>
  \<^verbatim>\<open>raw_to_screen\<close> reads the module constant \<^verbatim>\<open>CAL\<close> and the screen size
  \<^verbatim>\<open>W = CAL.get("W", 480)\<close>, \<^verbatim>\<open>H = CAL.get("H", 320)\<close>; the table is a parameter
  here, and the application's mapping is \<open>raw_to_screen CAL\<close>.
\<close>

definition raw_to_screen :: "cal \<Rightarrow> int \<Rightarrow> int \<Rightarrow> int \<times> int" where
  "raw_to_screen c rx ry =
     (let (rx1, ry1) = (if SWAP_XY c then (ry, rx) else (rx, ry));
          rx2 = (if FLIP_X c then 3800 - rx1 else rx1);
          ry2 = (if FLIP_Y c then 3800 - ry1 else ry1)
      in (map_linear rx2 (RAW_X_LEFT c) (RAW_X_RIGHT c) 0 (W c - 1),
          map_linear ry2 (RAW_Y_TOP c) (RAW_Y_BOT c) 0 (H c - 1)))"

subsection \<open>The mapping as the specification words it\<close>

text \<open>
  The specification's three stages, written from its words and compared with the code
  below: the axis swap, the reflection \<open>3800 - r\<close> of a flipped axis, and the linear
  map of the calibrated raw range onto \<open>0 .. ext - 1\<close>, rounded down and clamped.
\<close>

definition spec_swap :: "cal \<Rightarrow> int \<Rightarrow> int \<Rightarrow> int \<times> int" where
  "spec_swap c rx ry = (if SWAP_XY c then (ry, rx) else (rx, ry))"

definition spec_reflect :: "bool \<Rightarrow> int \<Rightarrow> int" where
  "spec_reflect flip r = (if flip then 3800 - r else r)"

definition spec_linear :: "int \<Rightarrow> int \<Rightarrow> int \<Rightarrow> int \<Rightarrow> int" where
  "spec_linear lo hi ext r =
     max 0 (min (ext - 1) \<lfloor>real_of_int (r - lo) * real_of_int (ext - 1) / real_of_int (hi - lo)\<rfloor>)"

text \<open>The raw value of each axis after the swap and the reflections.\<close>

definition spec_axis_x :: "cal \<Rightarrow> int \<Rightarrow> int \<Rightarrow> int" where
  "spec_axis_x c rx ry = spec_reflect (FLIP_X c) (fst (spec_swap c rx ry))"

definition spec_axis_y :: "cal \<Rightarrow> int \<Rightarrow> int \<Rightarrow> int" where
  "spec_axis_y c rx ry = spec_reflect (FLIP_Y c) (snd (spec_swap c rx ry))"

section \<open>xpt2046.py: the touch digitizer driver\<close>

text \<open>
  The driver talks to the hardware through three calls: the level of the interrupt
  line (\<^verbatim>\<open>irq.value()\<close>), the chip select (\<^verbatim>\<open>cs.value(v)\<close>) and the three-byte
  exchange \<^verbatim>\<open>spi.write_readinto(tx, rx)\<close>; \<^verbatim>\<open>time.sleep_us\<close> is its only other
  effect. The hardware is a record: the interrupt level (\<open>None\<close> when the driver was
  built without an interrupt line), the three bytes the controller answers in its
  \<open>k\<close>-th exchange, the number of exchanges done, and the trace of what the driver did.
\<close>

type_synonym byte = "8 word"

datatype tp_event = Tp_cs int | Tp_xfer "int list" | Tp_sleep_us int

record touch_hw =
  irq_pin :: "int option"
  spi_rx :: "nat \<Rightarrow> byte \<times> byte \<times> byte"
  transfers :: nat
  tp_trace :: "tp_event list"

definition CMD_X :: int where
  "CMD_X = 0xD0"

definition CMD_Y :: int where
  "CMD_Y = 0x90"

text \<open>\<^verbatim>\<open>touched\<close>: true without an interrupt line, else true when the line reads 0.\<close>

definition touched :: "touch_hw \<Rightarrow> bool" where
  "touched hw = (case irq_pin hw of None \<Rightarrow> True | Some v \<Rightarrow> v = 0)"

text \<open>\<^verbatim>\<open>((self._rx[1] << 8) | self._rx[2]) >> 4\<close> on the bytes received.\<close>

definition decode12 :: "byte \<times> byte \<times> byte \<Rightarrow> int" where
  "decode12 rx = (case rx of (b0, b1, b2) \<Rightarrow> drop_bit 4 (push_bit 8 (uint b1) OR uint b2))"

text \<open>
  \<^verbatim>\<open>_read12\<close>: select the chip, exchange \<^verbatim>\<open>[cmd, 0, 0]\<close> for three bytes, deselect,
  and decode.
\<close>

definition read12 :: "int \<Rightarrow> touch_hw \<Rightarrow> int \<times> touch_hw" where
  "read12 cmd hw =
     (decode12 (spi_rx hw (transfers hw)),
      hw\<lparr>transfers := Suc (transfers hw),
         tp_trace := tp_trace hw @ [Tp_cs 0, Tp_xfer [cmd, 0, 0], Tp_cs 1]\<rparr>)"

definition sleep_us :: "int \<Rightarrow> touch_hw \<Rightarrow> touch_hw" where
  "sleep_us d hw = hw\<lparr>tp_trace := tp_trace hw @ [Tp_sleep_us d]\<rparr>"

text \<open>
  The loop \<^verbatim>\<open>for _ in range(samples)\<close> of \<^verbatim>\<open>get_raw\<close>, by the number of rounds left:
  read Y, read X, append both, sleep.
\<close>

fun sample_loop ::
  "nat \<Rightarrow> int \<Rightarrow> int list \<Rightarrow> int list \<Rightarrow> touch_hw \<Rightarrow> (int list \<times> int list) \<times> touch_hw" where
  "sample_loop 0 d xs ys hw = ((xs, ys), hw)"
| "sample_loop (Suc n) d xs ys hw =
     (let (y, hw1) = read12 CMD_Y hw;
          (x, hw2) = read12 CMD_X hw1
      in sample_loop n d (xs @ [x]) (ys @ [y]) (sleep_us d hw2))"

text \<open>
  \<^verbatim>\<open>get_raw\<close>. \<^verbatim>\<open>range(samples)\<close> is empty for \<^verbatim>\<open>samples <= 0\<close>, and then
  \<^verbatim>\<open>xs[len(xs)//2]\<close> raises IndexError. After the sort, \<^verbatim>\<open>xs[0]\<close> and \<^verbatim>\<open>xs[-1]\<close>
  are the first and the last element.
\<close>

definition get_raw ::
  "int \<Rightarrow> int \<Rightarrow> touch_hw \<Rightarrow> (exn + (int \<times> int \<times> int) option) \<times> touch_hw" where
  "get_raw samples delay_us hw =
     (if irq_pin hw \<noteq> None \<and> \<not> touched hw then (Inr None, hw)
      else
        let ((xs0, ys0), hw1) = sample_loop (nat samples) delay_us [] [] hw;
            xs = sort xs0;
            ys = sort ys0
        in if xs = [] then (Inl IndexError, hw1)
           else
             let x = xs ! (length xs div 2);
                 y = ys ! (length ys div 2);
                 p = (last xs - hd xs) + (last ys - hd ys)
             in (Inr (Some (x, y, p)), hw1))"

subsection \<open>The filter as the specification words it\<close>

text \<open>
  The median of a sample list is the element in the middle of the sorted list (the
  upper one of the two middle elements when the count is even); the range is the
  largest sample minus the smallest.
\<close>

definition median :: "int list \<Rightarrow> int" where
  "median vs = sort vs ! (length vs div 2)"

definition spread :: "int list \<Rightarrow> int" where
  "spread vs = Max (set vs) - Min (set vs)"

text \<open>
  The Y and the X readings of the next \<open>n\<close> rounds: round \<open>k\<close> decodes the answers to
  the exchanges \<open>2 k\<close> (Y) and \<open>2 k + 1\<close> (X) from now; and the trace of one round.
\<close>

definition y_samples :: "touch_hw \<Rightarrow> nat \<Rightarrow> int list" where
  "y_samples hw n = map (\<lambda>k. decode12 (spi_rx hw (transfers hw + 2 * k))) [0..<n]"

definition x_samples :: "touch_hw \<Rightarrow> nat \<Rightarrow> int list" where
  "x_samples hw n = map (\<lambda>k. decode12 (spi_rx hw (transfers hw + 2 * k + 1))) [0..<n]"

definition pair_trace :: "int \<Rightarrow> tp_event list" where
  "pair_trace d =
     [Tp_cs 0, Tp_xfer [CMD_Y, 0, 0], Tp_cs 1, Tp_cs 0, Tp_xfer [CMD_X, 0, 0], Tp_cs 1,
      Tp_sleep_us d]"

text \<open>
  A touched digitizer whose next ten answers decode to the Y readings
  20, 21, 90, 22, 19 and the X readings 10, 50, 12, 48, 11.
\<close>

definition demo_rx :: "nat \<Rightarrow> byte \<times> byte \<times> byte" where
  "demo_rx k =
     (if k < 10
      then [(0, 1, 64), (0, 0, 160), (0, 1, 80), (0, 3, 32), (0, 5, 160),
            (0, 0, 192), (0, 1, 96), (0, 3, 0), (0, 1, 48), (0, 0, 176)] ! k
      else (0, 0, 0))"

definition demo_hw :: touch_hw where
  "demo_hw = \<lparr>irq_pin = Some 0, spi_rx = demo_rx, transfers = 0, tp_trace = []\<rparr>"

section \<open>ili9486.py: the display driver\<close>

text \<open>
  The driver's effects are writes to three lines: chip select, data/command select and
  the serial bus. The panel keeps the trace of them; a call that appends nothing made
  no bus transaction.
\<close>

datatype lcd_event = Lcd_cs int | Lcd_dc int | Lcd_write "int list"
















subsection \<open>Clipping as the specification words it\<close>



fun written_bytes :: "lcd_event list \<Rightarrow> int list" where
  "written_bytes [] = []"
| "written_bytes (Lcd_write d # es) = d @ written_bytes es"
| "written_bytes (e # es) = written_bytes es"



section \<open>MicroPython's millisecond ticks\<close>

text \<open>
  \<^verbatim>\<open>time.ticks_ms()\<close> and \<^verbatim>\<open>time.ticks_diff(a, b)\<close> belong to the platform, not to the
  repository. As MicroPython documents them: the counter wraps around at a period that
  is a power of two (\<open>2 ^ 30\<close> on this port), and \<^verbatim>\<open>ticks_diff\<close> is the signed
  difference within half a period. \<open>ticks_ms t\<close> is the counter \<open>t\<close> milliseconds after
  the start.
\<close>

definition TICKS_PERIOD :: int where
  "TICKS_PERIOD = 2 ^ 30"

definition ticks_ms :: "int \<Rightarrow> int" where
  "ticks_ms t = t mod TICKS_PERIOD"

definition ticks_diff :: "int \<Rightarrow> int \<Rightarrow> int" where
  "ticks_diff a b = (a - b + TICKS_PERIOD div 2) mod TICKS_PERIOD - TICKS_PERIOD div 2"

section \<open>mic\_level.py: the ambient sound classifier\<close>

text \<open>
  The fields of \<^verbatim>\<open>MicLevel\<close> that \<^verbatim>\<open>update\<close> reads or writes. Python floats are
  modelled as real numbers: the sums and products of the smoothing are exact here.
\<close>

record mic_level =
  sample_count :: int
  sample_us :: int
  ema_alpha :: real
  quiet_threshold :: real
  hysteresis :: real
  quiet_hold_ms :: int
  ema_rms :: real
  quiet :: bool
  quiet_start :: "int option"

text \<open>\<^verbatim>\<open>__init__\<close>: smoothed level 0, loud, no candidate timer.\<close>

definition MicLevel :: "int \<Rightarrow> int \<Rightarrow> real \<Rightarrow> real \<Rightarrow> real \<Rightarrow> int \<Rightarrow> mic_level" where
  "MicLevel n us alpha threshold hyst hold_ms =
     \<lparr>sample_count = n, sample_us = us, ema_alpha = alpha, quiet_threshold = threshold,
      hysteresis = hyst, quiet_hold_ms = hold_ms, ema_rms = 0, quiet = False,
      quiet_start = None\<rparr>"

text \<open>
  \<^verbatim>\<open>update\<close>. Its two inputs are the value \<^verbatim>\<open>self._read_rms()\<close> returned (the converter
  is read there) and the value \<^verbatim>\<open>time.ticks_ms()\<close> returned. The dictionary it returns
  holds \<open>raw_rms\<close> and the fields \<open>ema_rms\<close> and \<open>quiet\<close> of the new state.
\<close>

definition update :: "mic_level \<Rightarrow> real \<Rightarrow> int \<Rightarrow> mic_level" where
  "update m raw_rms now =
     (let m1 = m\<lparr>ema_rms := ema_alpha m * raw_rms + (1 - ema_alpha m) * ema_rms m\<rparr>;
          enter_quiet_at = quiet_threshold m1;
          exit_quiet_at = quiet_threshold m1 + hysteresis m1
      in if \<not> quiet m1 then
           (if ema_rms m1 < enter_quiet_at then
              (case quiet_start m1 of
                 None \<Rightarrow> m1\<lparr>quiet_start := Some now\<rparr>
               | Some t0 \<Rightarrow>
                   if ticks_diff now t0 \<ge> quiet_hold_ms m1 then m1\<lparr>quiet := True\<rparr> else m1)
            else m1\<lparr>quiet_start := None\<rparr>)
         else
           (if ema_rms m1 > exit_quiet_at then m1\<lparr>quiet := False, quiet_start := None\<rparr>
            else m1))"

text \<open>The classifier the application builds (\<^verbatim>\<open>main.py\<close>, lines 31 to 39).\<close>

definition mic0 :: mic_level where
  "mic0 = MicLevel 180 200 (15 / 100) (4 / 10) (3 / 1000) 1500"

subsection \<open>Runs of the classifier\<close>

text \<open>
  A run feeds the classifier one poll after the other; a poll is the raw level read and
  the time of the poll in milliseconds since the start. \<open>smoothed m r\<close> is the smoothed
  level the next update computes from the raw level \<open>r\<close>.
\<close>

definition smoothed :: "mic_level \<Rightarrow> real \<Rightarrow> real" where
  "smoothed m r = ema_alpha m * r + (1 - ema_alpha m) * ema_rms m"

fun run :: "mic_level \<Rightarrow> (real \<times> int) list \<Rightarrow> mic_level" where
  "run m [] = m"
| "run m (p # ps) = run (update m (fst p) (ticks_ms (snd p))) ps"




section \<open>main.py: word wrap\<close>

text \<open>
  Python strings are lists of characters here. \<^verbatim>\<open>s.split(sep)\<close> with a separator of
  one character cuts at every occurrence and keeps the empty pieces; \<^verbatim>\<open>s.strip()\<close>
  removes the white space at both ends, which in MicroPython is the space, the tab,
  the line feed, the vertical tab, the form feed and the carriage return.
\<close>

fun split_on :: "char \<Rightarrow> string \<Rightarrow> string list" where
  "split_on sep [] = [[]]"
| "split_on sep (c # cs) =
     (if c = sep then [] # split_on sep cs
      else (case split_on sep cs of [] \<Rightarrow> [[c]] | p # ps \<Rightarrow> (c # p) # ps))"

definition is_space :: "char \<Rightarrow> bool" where
  "is_space c \<longleftrightarrow>
     c = CHR '' '' \<or> c = CHR 0x09 \<or> c = CHR 0x0A \<or> c = CHR 0x0B \<or> c = CHR 0x0C \<or> c = CHR 0x0D"

definition strip :: "string \<Rightarrow> string" where
  "strip s = rev (dropWhile is_space (rev (dropWhile is_space s)))"

text \<open>
  The state of the loops of \<^verbatim>\<open>wrap_text\<close> is the pair \<^verbatim>\<open>(lines, cur)\<close>.
  \<^verbatim>\<open>if cur: lines.append(cur)\<close> is \<open>flush\<close>. The \<^verbatim>\<open>if\<close>/\<^verbatim>\<open>else\<close> that places one
  piece stands twice in the source, for a fragment \<^verbatim>\<open>p\<close> and for a word \<^verbatim>\<open>w_\<close>, with
  the same text: it is \<open>place\<close>.
\<close>

definition flush :: "string list \<Rightarrow> string \<Rightarrow> string list" where
  "flush lines cur = (if cur \<noteq> [] then lines @ [cur] else lines)"

definition place :: "int \<Rightarrow> string list \<times> string \<Rightarrow> string \<Rightarrow> string list \<times> string" where
  "place max_chars st p =
     (case st of (lines, cur) \<Rightarrow>
        if int (length cur) + (if cur \<noteq> [] then 1 else 0) + int (length p) \<le> max_chars
        then (lines, strip (cur @ '' '' @ p))
        else (flush lines cur, p))"

text \<open>
  The loop \<^verbatim>\<open>for i, p in enumerate(parts)\<close>: a non-empty fragment is placed; after every
  fragment but the last the current line is flushed and emptied.
\<close>

fun wrap_parts :: "int \<Rightarrow> string list \<Rightarrow> string list \<times> string \<Rightarrow> string list \<times> string" where
  "wrap_parts max_chars [] st = st"
| "wrap_parts max_chars (p # ps) st =
     (let st1 = (if p \<noteq> [] then place max_chars st p else st);
          st2 = (if ps \<noteq> [] then (flush (fst st1) (snd st1), []) else st1)
      in wrap_parts max_chars ps st2)"

text \<open>The body of \<^verbatim>\<open>for w_ in words\<close>.\<close>

definition wrap_word :: "int \<Rightarrow> string list \<times> string \<Rightarrow> string \<Rightarrow> string list \<times> string" where
  "wrap_word max_chars st w =
     (if CHR 0x0A \<in> set w then wrap_parts max_chars (split_on (CHR 0x0A) w) st
      else place max_chars st w)"

definition wrap_text :: "string \<Rightarrow> int \<Rightarrow> string list" where
  "wrap_text s max_chars =
     (case foldl (wrap_word max_chars) ([], []) (split_on (CHR '' '') s) of
        (lines, cur) \<Rightarrow> flush lines cur)"

subsection \<open>The wrap as the specification words it\<close>

text \<open>
  The input is a sequence of words and forced breaks: the pieces between spaces, each
  cut again at its line breaks with a break between two fragments. A break ends the
  current line. A word (an empty piece carries no word) joins the current line, after
  one space if the line is not empty, when the line's length plus that space plus the
  word's length is within the budget; otherwise the current line is ended and the word
  starts the next one.
\<close>

datatype token = Word string | Break

fun part_tokens :: "string list \<Rightarrow> token list" where
  "part_tokens [] = []"
| "part_tokens [p] = [Word p]"
| "part_tokens (p # ps) = Word p # Break # part_tokens ps"

definition tokens :: "string \<Rightarrow> token list" where
  "tokens s = concat (map (\<lambda>w. part_tokens (split_on (CHR 0x0A) w)) (split_on (CHR '' '') s))"

fun spec_step :: "int \<Rightarrow> string list \<times> string \<Rightarrow> token \<Rightarrow> string list \<times> string" where
  "spec_step budget (lines, cur) Break = (flush lines cur, [])"
| "spec_step budget (lines, cur) (Word t) =
     (if t = [] then (lines, cur)
      else if int (length cur) + (if cur \<noteq> [] then 1 else 0) + int (length t) \<le> budget
      then (lines, if cur = [] then t else cur @ '' '' @ t)
      else (flush lines cur, t))"

definition spec_wrap :: "string \<Rightarrow> int \<Rightarrow> string list" where
  "spec_wrap s budget =
     (case foldl (spec_step budget) ([], []) (tokens s) of (lines, cur) \<Rightarrow> flush lines cur)"

text \<open>Text whose only white space is the space and the line feed.\<close>

definition plain_text :: "string \<Rightarrow> bool" where
  "plain_text s \<longleftrightarrow> list_all (\<lambda>c. is_space c \<longrightarrow> c = CHR '' '' \<or> c = CHR 0x0A) s"

subsection \<open>The relation between the two wraps\<close>

text \<open>
  A piece without white space; a line that is empty or starts and ends with a character
  that is not white space; and the relation kept between the state of the code and the
  state of the worded wrap: the states are equal, or the code has already ended a line
  that can take no further word where the worded wrap still holds it as current.
\<close>

definition no_space :: "string \<Rightarrow> bool" where
  "no_space t \<longleftrightarrow> list_all (\<lambda>c. \<not> is_space c) t"

definition clean :: "string \<Rightarrow> bool" where
  "clean s \<longleftrightarrow> s = [] \<or> (\<not> is_space (hd s) \<and> \<not> is_space (last s))"

definition sim :: "int \<Rightarrow> string list \<times> string \<Rightarrow> string list \<times> string \<Rightarrow> bool" where
  "sim budget c s \<longleftrightarrow>
     clean (snd s) \<and>
     (c = s \<or> (snd s \<noteq> [] \<and> budget < int (length (snd s)) + 1 \<and> c = (fst s @ [snd s], [])))"

section \<open>main.py: the application controller\<close>

subsection \<open>Python helpers\<close>

text \<open>
  \<^verbatim>\<open>xs[i]\<close> on a list: a negative index counts from the end, an index out of range
  raises IndexError. \<open>then_do\<close> runs the next statement unless the one before raised.
  \<^verbatim>\<open>str(i)\<close> is the decimal numeral of an integer, as an f-string prints it.
\<close>

definition py_index :: "'a list \<Rightarrow> int \<Rightarrow> exn + 'a" where
  "py_index xs i =
     (if i < - int (length xs) \<or> int (length xs) \<le> i then Inl IndexError
      else if i < 0 then Inr (xs ! nat (int (length xs) + i))
      else Inr (xs ! nat i))"

definition then_do :: "exn + 'a \<Rightarrow> ('a \<Rightarrow> exn + 'b) \<Rightarrow> exn + 'b" where
  "then_do r f = (case r of Inl e \<Rightarrow> Inl e | Inr v \<Rightarrow> f v)"

function digits :: "nat \<Rightarrow> string" where
  "digits n =
     (if n < 10 then [char_of (48 + n)] else digits (n div 10) @ [char_of (48 + n mod 10)])"
  by pat_completeness auto
termination
  by (relation "measure id") auto

definition str_int :: "int \<Rightarrow> string" where
  "str_int i = (if i < 0 then CHR ''-'' # digits (nat (- i)) else digits (nat i))"

subsection \<open>Constants, themes and cards\<close>

definition MIC_POLL_MS :: int where
  "MIC_POLL_MS = 220"

definition MIC_DRAW_THROTTLE :: int where
  "MIC_DRAW_THROTTLE = 250"

definition BLACK :: int where "BLACK = 0x0000"
definition WHITE :: int where "WHITE = 0xFFFF"
definition GREY :: int where "GREY = 0x7BEF"
definition YELL :: int where "YELL = 0xFFE0"
definition RED :: int where "RED = 0xF800"
definition GREEN :: int where "GREEN = 0x07E0"
definition BLUE :: int where "BLUE = 0x001F"
definition CYAN :: int where "CYAN = 0x07FF"
definition MAG :: int where "MAG = 0xF81F"
definition ORNG :: int where "ORNG = 0xFD20"

text \<open>A row of \<^verbatim>\<open>THEMES\<close>, with the names \<^verbatim>\<open>th()\<close> gives its nine entries.\<close>

record theme =
  th_name :: string
  title_bg :: int
  title_fg :: int
  screen_bg :: int
  box_bg :: int
  box_border :: int
  btn_bg :: int
  btn_fg :: int
  accent :: int

definition mk_theme ::
  "string \<Rightarrow> int \<Rightarrow> int \<Rightarrow> int \<Rightarrow> int \<Rightarrow> int \<Rightarrow> int \<Rightarrow> int \<Rightarrow> int \<Rightarrow> theme" where
  "mk_theme n tb tf sb bb bo b f ac =
     \<lparr>th_name = n, title_bg = tb, title_fg = tf, screen_bg = sb, box_bg = bb, box_border = bo,
      btn_bg = b, btn_fg = f, accent = ac\<rparr>"

definition THEMES :: "theme list" where
  "THEMES =
     [mk_theme ''DARK (HC)'' 0xFFFF 0x0000 0xFFFF 0xFFFF 0x0000 0xE71C 0x0000 0x07E0,
      mk_theme ''LIGHT (HC)'' 0x0000 0xFFFF 0x0000 0x0000 0xFFFF 0x4208 0xFFFF 0xFFE0,
      mk_theme ''YELLOW (ACCESS)'' 0x001F 0xFFFF 0xFFFF 0xFFFF 0x0000 0xC618 0x0000 0x001F,
      mk_theme ''GREEN (ACCESS)'' 0x780F 0xFFFF 0xFFFF 0xFFFF 0x0000 0xC618 0x0000 0x780F,
      mk_theme ''AMBER (DARK)'' 0x0000 0xFFE0 0x0000 0x0000 0xFFE0 0x4208 0xFFE0 0xFFE0]"

text \<open>A card is \<^verbatim>\<open>(icon, phrase, bg, fg)\<close>; a category is \<^verbatim>\<open>(name, cards, bg, fg)\<close>.\<close>

type_synonym card = "string \<times> string \<times> int \<times> int"

definition CAT_NEEDS :: "card list" where
  "CAT_NEEDS =
     [(''!'', ''I NEED HELP'', RED, WHITE),
      (''~'', ''PLEASE WAIT'', ORNG, BLACK),
      (''~'', ''I NEED SPACE'', ORNG, BLACK),
      (''~'', ''I NEED A BREAK'', YELL, BLACK),
      (''~'', ''WATER PLEASE'', CYAN, BLACK),
      (''~'', ''HUNGRY'', GREEN, BLACK),
      (''~'', ''TIRED'', GREY, BLACK),
      (''!'', ''I NEED TO GO HOME'', ORNG, BLACK)]"

definition CAT_SENSORY :: "card list" where
  "CAT_SENSORY =
     [(''!'', ''TOO LOUD'', MAG, WHITE),
      (''!'', ''TOO MANY PEOPLE'', MAG, WHITE),
      (''!'', ''TOO BRIGHT'', MAG, WHITE),
      (''~'', ''I NEED QUIET'', BLUE, WHITE),
      (''~'', ''I NEED DIM LIGHTS'', BLUE, WHITE)]"

definition CAT_RESPONSES :: "card list" where
  "CAT_RESPONSES =
     [(''?'', ''YES'', GREEN, BLACK),
      (''?'', ''NO'', RED, WHITE),
      (''~'', ''MAYBE'', YELL, BLACK),
      (''~'', ''I DON'' @ [CHR 0x27] @ ''T KNOW'', GREY, BLACK),
      (''~'', ''PLEASE TEXT ME'', CYAN, BLACK),
      (''~'', ''I CAN'' @ [CHR 0x27] @ ''T SPEAK RIGHT NOW'', CYAN, BLACK)]"

definition CAT_FEELINGS :: "card list" where
  "CAT_FEELINGS =
     [(''*'', ''I FEEL OVERWHELMED'', ORNG, BLACK),
      (''*'', ''I FEEL SICK'', RED, WHITE),
      (''*'', ''I FEEL ANXIOUS'', ORNG, BLACK),
      (''*'', ''I AM OKAY'', GREEN, BLACK)]"

definition FAV_CARDS :: "card list" where
  "FAV_CARDS =
     [(''!'', ''PLEASE WAIT'', ORNG, BLACK),
      (''!'', ''I NEED SPACE'', ORNG, BLACK),
      (''!'', ''TOO LOUD'', MAG, WHITE),
      (''!'', ''TOO MANY PEOPLE'', MAG, WHITE),
      (''!'', ''I NEED TO GO HOME'', ORNG, BLACK),
      (''~'', ''WATER PLEASE'', CYAN, BLACK)]"

definition COMM_CATEGORIES :: "(string \<times> card list \<times> int \<times> int) list" where
  "COMM_CATEGORIES =
     [(''FAVOURITES'', FAV_CARDS, YELL, BLACK),
      (''NEEDS'', CAT_NEEDS, GREEN, BLACK),
      (''SENSORY'', CAT_SENSORY, MAG, WHITE),
      (''RESPONSES'', CAT_RESPONSES, CYAN, BLACK),
      (''FEELINGS'', CAT_FEELINGS, ORNG, BLACK)]"

datatype screen =
  SCREEN_MENU | SCREEN_GROUND | SCREEN_CONTACTS | SCREEN_SETTINGS | SCREEN_COMM_MENU
  | SCREEN_COMM_CARD

subsection \<open>The module state\<close>

text \<open>
  The calls the controller makes on the display driver are kept as a list: what each
  does on the bus is the driver's business, and on the application's panel none of them
  raises. The record holds the module variables the modelled functions read or write
  (a leading underscore of the source is dropped) and the touch hardware.
\<close>

datatype lcd_call =
  Fill int | Fill_rect int int int int int | Text string int int int "int option" int

record app =
  mic :: "mic_level option"
  mic_quiet :: bool
  mic_rms :: real
  last_mic_poll :: int
  last_badge_draw :: int
  last_badge_state :: "bool option"
  theme_index :: int
  comm_cards :: "card list"
  comm_cat_name :: string
  comm_card_index :: int
  current_screen :: screen
  was_down :: bool
  last_tap_ms :: int
  tp :: touch_hw
  lcd_calls :: "lcd_call list"

definition lcd_send :: "lcd_call list \<Rightarrow> app \<Rightarrow> app" where
  "lcd_send cs a = a\<lparr>lcd_calls := lcd_calls a @ cs\<rparr>"

definition th :: "app \<Rightarrow> exn + theme" where
  "th a = py_index THEMES (theme_index a)"

text \<open>A button of the controller: \<^verbatim>\<open>make_btn\<close> may add the attributes \<^verbatim>\<open>bg\<close> and \<^verbatim>\<open>fg\<close>.\<close>

record app_button = button +
  bg_attr :: "int option"
  fg_attr :: "int option"

definition make_btn ::
  "int \<Rightarrow> int \<Rightarrow> int \<Rightarrow> int \<Rightarrow> string \<Rightarrow> int option \<Rightarrow> int option \<Rightarrow> app_button" where
  "make_btn x y w h label bg fg =
     \<lparr>btn_x = x, btn_y = y, btn_w = w, btn_h = h, btn_label = label, bg_attr = bg, fg_attr = fg\<rparr>"

definition NAV_H :: int where "NAV_H = 80"
definition NAV_Y :: int where "NAV_Y = H CAL - (NAV_H + 20)"
definition NAV_X0 :: int where "NAV_X0 = 20"
definition NAV_GAP :: int where "NAV_GAP = 12"
definition NAV_W :: int where "NAV_W = (W CAL - 40 - 2 * NAV_GAP) div 3"
definition ACT_H :: int where "ACT_H = 44"
definition ACT_Y :: int where "ACT_Y = 48 + 8"
definition ACT_X0 :: int where "ACT_X0 = 20"
definition ACT_GAP :: int where "ACT_GAP = 12"
definition ACT_W :: int where "ACT_W = (W CAL - 40 - ACT_GAP) div 2"

definition btn_comm_prev :: app_button where
  "btn_comm_prev = make_btn (NAV_X0 + 0 * (NAV_W + NAV_GAP)) NAV_Y NAV_W NAV_H ''PREV'' None None"

definition btn_comm_cats :: app_button where
  "btn_comm_cats = make_btn (NAV_X0 + 1 * (NAV_W + NAV_GAP)) NAV_Y NAV_W NAV_H ''CATS'' None None"

definition btn_comm_next :: app_button where
  "btn_comm_next = make_btn (NAV_X0 + 2 * (NAV_W + NAV_GAP)) NAV_Y NAV_W NAV_H ''NEXT'' None None"

definition btn_comm_speak :: app_button where
  "btn_comm_speak = make_btn ACT_X0 ACT_Y ACT_W ACT_H ''SPEAK'' (Some BLUE) (Some WHITE)"

definition btn_comm_menu :: app_button where
  "btn_comm_menu = make_btn (ACT_X0 + ACT_W + ACT_GAP) ACT_Y ACT_W ACT_H ''MENU'' None None"

subsection \<open>Drawing helpers\<close>

definition draw_border :: "int \<Rightarrow> int \<Rightarrow> int \<Rightarrow> int \<Rightarrow> int \<Rightarrow> app \<Rightarrow> app" where
  "draw_border x y w h c a =
     lcd_send [Fill_rect x y w 1 c, Fill_rect x (y + h - 1) w 1 c, Fill_rect x y 1 h c,
          Fill_rect (x + w - 1) y 1 h c] a"

text \<open>
  \<^verbatim>\<open>draw_mic_badge\<close>; \<open>now\<close> is the value its call of \<^verbatim>\<open>time.ticks_ms()\<close> returns.
  \<^verbatim>\<open>state == _last_badge_state\<close> compares a boolean with \<^verbatim>\<open>None\<close> or a boolean.
\<close>

definition badge_calls :: "bool \<Rightarrow> theme \<Rightarrow> app \<Rightarrow> app" where
  "badge_calls state t a =
     (let bx = W CAL - 132; by = 10; bw = 120; bh = 28;
          bg = (if state then GREEN else MAG);
          fg = (if state then BLACK else WHITE);
          label = (if state then ''QUIET OK'' else ''LOUD'');
          a1 = lcd_send [Fill_rect bx by bw bh bg] a;
          a2 = draw_border bx by bw bh (box_border t) a1;
          scale = 2;
          tw = int (length label) * 8 * scale;
          tx = bx + (bw - tw) div 2;
          ty = by + (bh - 16) div 2
      in lcd_send [Text label tx ty fg (Some bg) scale] a2)"

definition draw_mic_badge :: "bool \<Rightarrow> int \<Rightarrow> app \<Rightarrow> exn + app" where
  "draw_mic_badge force now a =
     (if mic a = None then Inr a
      else if \<not> force \<and> ticks_diff now (last_badge_draw a) < MIC_DRAW_THROTTLE then Inr a
      else
        let state = mic_quiet a
        in if \<not> force \<and> Some state = last_badge_state a then Inr (a\<lparr>last_badge_draw := now\<rparr>)
           else then_do (th a) (\<lambda>t.
                  Inr ((badge_calls state t a)\<lparr>last_badge_state := Some state,
                         last_badge_draw := now\<rparr>)))"

definition draw_title_bar :: "string \<Rightarrow> int \<Rightarrow> app \<Rightarrow> exn + app" where
  "draw_title_bar title now a =
     then_do (th a) (\<lambda>t.
       draw_mic_badge True now
         (lcd_send [Fill_rect 0 0 (W CAL) 48 (title_bg t),
               Text title 12 14 (title_fg t) (Some (title_bg t)) 2] a))"

definition draw_button :: "app_button \<Rightarrow> bool \<Rightarrow> app \<Rightarrow> exn + app" where
  "draw_button btn pressed a =
     then_do (th a) (\<lambda>t.
       let bg0 = (case bg_attr btn of Some c \<Rightarrow> c | None \<Rightarrow> btn_bg t);
           fg0 = (case fg_attr btn of Some c \<Rightarrow> c | None \<Rightarrow> btn_fg t);
           bg = (if pressed then fg0 else bg0);
           fg = (if pressed then bg0 else fg0);
           a1 = lcd_send [Fill_rect (btn_x btn) (btn_y btn) (btn_w btn) (btn_h btn) bg] a;
           a2 = draw_border (btn_x btn) (btn_y btn) (btn_w btn) (btn_h btn) (box_border t) a1;
           scale = 2;
           text_w = int (length (btn_label btn)) * 8 * scale;
           tx = btn_x btn + (btn_w btn - text_w) div 2;
           ty = btn_y btn + (btn_h btn - 16) div 2
       in Inr (lcd_send [Text (btn_label btn) tx ty fg (Some bg) scale] a2))"

definition draw_indicator :: "string \<Rightarrow> app \<Rightarrow> exn + app" where
  "draw_indicator s a =
     then_do (th a) (\<lambda>t.
       let scale = 2;
           tw = int (length s) * 8 * scale;
           reserve = (if mic a \<noteq> None then 140 else 0);
           x = W CAL - reserve - tw - 12
       in Inr (lcd_send [Text s x 14 (title_fg t) (Some (title_bg t)) scale] a))"

subsection \<open>Communication cards\<close>

text \<open>The loop \<^verbatim>\<open>for line in lines\<close> of \<^verbatim>\<open>draw_comm_card\<close>.\<close>

fun draw_lines ::
  "string list \<Rightarrow> int \<Rightarrow> int \<Rightarrow> int \<Rightarrow> int \<Rightarrow> int \<Rightarrow> int \<Rightarrow> int \<Rightarrow> app \<Rightarrow> app" where
  "draw_lines [] y card_x card_w scale line_h fg bg a = a"
| "draw_lines (line # lines) y card_x card_w scale line_h fg bg a =
     (let text_w = int (length line) * 8 * scale;
          x = card_x + (card_w - text_w) div 2
      in draw_lines lines (y + line_h) card_x card_w scale line_h fg bg
           (lcd_send [Text line x y fg (Some bg) scale] a))"

definition draw_comm_card :: "int \<Rightarrow> app \<Rightarrow> exn + app" where
  "draw_comm_card now a =
     then_do (th a) (\<lambda>t.
     then_do (draw_title_bar (comm_cat_name a) now (lcd_send [Fill (screen_bg t)] a)) (\<lambda>a1.
     then_do (draw_button btn_comm_speak False a1) (\<lambda>a2.
     then_do (draw_button btn_comm_menu False a2) (\<lambda>a3.
       let card_x = 16;
           card_y = ACT_Y + ACT_H + 10;
           card_w = W CAL - 32;
           card_h = H CAL - card_y - (NAV_H + 30)
       in
     then_do (py_index (comm_cards a3) (comm_card_index a3)) (\<lambda>(icon, phrase, bg, fg).
       let a4 = draw_border card_x card_y card_w card_h (box_border t)
                  (lcd_send [Fill_rect card_x card_y card_w card_h bg] a3);
           indicator = str_int (comm_card_index a4 + 1) @ ''/'' @ str_int (int (length (comm_cards a4)))
       in
     then_do (draw_indicator indicator a4) (\<lambda>a5.
       let icon_scale = 4;
           icon_w = int (length icon) * 8 * icon_scale;
           ix = card_x + (card_w - icon_w) div 2;
           iy = card_y + 18;
           a6 = lcd_send [Text icon ix iy fg (Some bg) icon_scale] a5;
           scale3 = 3;
           chars3 = (card_w - 20) div (8 * scale3);
           scale2 = (if chars3 < 6 then 2 else scale3);
           chars2 = (if chars3 < 6 then (card_w - 20) div (8 * scale2) else chars3);
           scale = (if chars2 < 6 then 1 else scale2);
           max_chars = (if chars2 < 6 then (card_w - 20) div (8 * scale) else chars2);
           lines = wrap_text phrase max_chars;
           line_h = 8 * scale + 6;
           total_h = int (length lines) * line_h;
           start_y = iy + 8 * icon_scale + 18;
           rem_h = (card_y + card_h) - start_y - 12;
           y = start_y + (rem_h - total_h) div 2;
           a7 = draw_lines lines y card_x card_w scale line_h fg bg a6
       in
     then_do (draw_button btn_comm_prev False a7) (\<lambda>a8.
     then_do (draw_button btn_comm_cats False a8) (\<lambda>a9.
       draw_button btn_comm_next False a9))))))))"

definition show_comm_card :: "int \<Rightarrow> app \<Rightarrow> exn + app" where
  "show_comm_card now a = draw_comm_card now (a\<lparr>current_screen := SCREEN_COMM_CARD\<rparr>)"

definition open_category :: "int \<Rightarrow> int \<Rightarrow> app \<Rightarrow> exn + app" where
  "open_category idx now a =
     then_do (py_index COMM_CATEGORIES idx) (\<lambda>(name, cards, bg, fg).
       show_comm_card now (a\<lparr>comm_cat_name := name, comm_cards := cards, comm_card_index := 0\<rparr>))"

definition comm_prev :: "int \<Rightarrow> app \<Rightarrow> exn + app" where
  "comm_prev now a =
     (if comm_card_index a > 0
      then draw_comm_card now (a\<lparr>comm_card_index := comm_card_index a - 1\<rparr>)
      else Inr a)"

definition comm_next :: "int \<Rightarrow> app \<Rightarrow> exn + app" where
  "comm_next now a =
     (if comm_card_index a < int (length (comm_cards a)) - 1
      then draw_comm_card now (a\<lparr>comm_card_index := comm_card_index a + 1\<rparr>)
      else Inr a)"

text \<open>
  The module state when the definitions of \<^verbatim>\<open>main.py\<close> have run, before the first
  screen is shown: the classifier was built, the touch driver has its interrupt line.
\<close>

definition app0 :: app where
  "app0 =
     \<lparr>mic = Some mic0, mic_quiet = False, mic_rms = 0, last_mic_poll = 0, last_badge_draw = 0,
      last_badge_state = None, theme_index = 0, comm_cards = FAV_CARDS,
      comm_cat_name = ''FAVOURITES'', comm_card_index = 0, current_screen = SCREEN_MENU,
      was_down = False, last_tap_ms = 0,
      tp = \<lparr>irq_pin = Some 1, spi_rx = (\<lambda>k. (0, 0, 0)), transfers = 0, tp_trace = []\<rparr>,
      lcd_calls = []\<rparr>"

subsection \<open>Invariants and runs of the card actions\<close>

text \<open>
  The theme index selects a row of \<^verbatim>\<open>THEMES\<close>; the card index selects a card of the
  active list; \<open>same_nav\<close> relates two states that differ at most in what was drawn.
  A run applies the three card actions in turn, each with the tick value its redraw
  reads, and stops at the first exception.
\<close>

definition theme_ok :: "app \<Rightarrow> bool" where
  "theme_ok a \<longleftrightarrow> 0 \<le> theme_index a \<and> theme_index a < int (length THEMES)"

definition card_index_ok :: "app \<Rightarrow> bool" where
  "card_index_ok a \<longleftrightarrow> 0 \<le> comm_card_index a \<and> comm_card_index a < int (length (comm_cards a))"

definition same_nav :: "app \<Rightarrow> app \<Rightarrow> bool" where
  "same_nav a b \<longleftrightarrow>
     theme_index b = theme_index a \<and> comm_cards b = comm_cards a \<and>
     comm_card_index b = comm_card_index a \<and> comm_cat_name b = comm_cat_name a \<and>
     current_screen b = current_screen a \<and> mic b = mic a"

text \<open>A result that is a state differing from \<open>a\<close> at most in what was drawn.\<close>

definition drawn_from :: "app \<Rightarrow> exn + app \<Rightarrow> bool" where
  "drawn_from a r \<longleftrightarrow> (case r of Inl e \<Rightarrow> False | Inr b \<Rightarrow> same_nav a b)"

datatype comm_action = Prev | Next | Open int

fun do_action :: "comm_action \<Rightarrow> int \<Rightarrow> app \<Rightarrow> exn + app" where
  "do_action Prev now a = comm_prev now a"
| "do_action Next now a = comm_next now a"
| "do_action (Open idx) now a = open_category idx now a"

fun valid_action :: "comm_action \<Rightarrow> bool" where
  "valid_action (Open idx) = (0 \<le> idx \<and> idx < int (length COMM_CATEGORIES))"
| "valid_action act = True"

fun run_comm :: "app \<Rightarrow> (comm_action \<times> int) list \<Rightarrow> exn + app" where
  "run_comm a [] = Inr a"
| "run_comm a (p # ps) = then_do (do_action (fst p) (snd p) a) (\<lambda>b. run_comm b ps)"

text \<open>The start state moved to the last favourite card, and a run of six actions.\<close>

definition demo_last :: app where
  "demo_last = app0\<lparr>comm_card_index := 5\<rparr>"

definition demo_actions :: "(comm_action \<times> int) list" where
  "demo_actions = [(Next, 5), (Next, 6), (Prev, 7), (Open 2, 9), (Prev, 10), (Next, 11)]"

text \<open>
  A state in which the badge was last drawn at tick 1000 showing LOUD, and the
  classification has since turned quiet.
\<close>

definition demo_badge :: app where
  "demo_badge = app0\<lparr>mic_quiet := True, last_badge_draw := 1000, last_badge_state := Some False\<rparr>"

text \<open>The state after the first unforced request at tick 300 has drawn LOUD.\<close>

definition demo_drawn :: app where
  "demo_drawn =
     (badge_calls False (THEMES ! 0) app0)\<lparr>last_badge_state := Some False, last_badge_draw := 300\<rparr>"

subsection \<open>The main loop\<close>

text \<open>
  The attributes of an \<^verbatim>\<open>XPT2046\<close> object: the class constants and methods and the
  fields \<^verbatim>\<open>__init__\<close> sets. A call \<^verbatim>\<open>tp.name(samples=.., delay_us=..)\<close> raises
  AttributeError when the object has no such attribute, runs \<^verbatim>\<open>get_raw\<close> when that is
  the name, and raises TypeError for the other attributes, which take no such arguments.
\<close>

definition XPT2046_attrs :: "string list" where
  "XPT2046_attrs =
     [''CMD_X'', ''CMD_Y'', ''__init__'', ''touched'', ''_read12'', ''get_raw'',
      ''spi'', ''cs'', ''irq'', ''_tx'', ''_rx'']"

definition tp_call ::
  "string \<Rightarrow> int \<Rightarrow> int \<Rightarrow> touch_hw \<Rightarrow> (exn + (int \<times> int \<times> int) option) \<times> touch_hw" where
  "tp_call name samples delay_us hw =
     (if name \<notin> set XPT2046_attrs then (Inl AttributeError, hw)
      else if name = ''get_raw'' then get_raw samples delay_us hw
      else (Inl TypeError, hw))"

definition debug_dot :: "int \<Rightarrow> int \<Rightarrow> app \<Rightarrow> app" where
  "debug_dot x y a = lcd_send [Fill_rect (x - 2) (y - 2) 5 5 RED] a"

text \<open>
  What one iteration reads from outside: the tick values of its calls of
  \<^verbatim>\<open>time.ticks_ms()\<close> (in the loop, in the poll, in \<^verbatim>\<open>update\<close>, in the badge), the raw
  level the classifier reads, and the level of the touch interrupt line.
\<close>

record loop_input =
  in_now :: int
  in_poll_now :: int
  in_raw_rms :: real
  in_update_now :: int
  in_badge_now :: int
  in_irq :: int

definition poll_mic_and_update_badge :: "loop_input \<Rightarrow> app \<Rightarrow> exn + app" where
  "poll_mic_and_update_badge inp a =
     (case mic a of
        None \<Rightarrow> Inr a
      | Some m \<Rightarrow>
          if ticks_diff (in_poll_now inp) (last_mic_poll a) < MIC_POLL_MS then Inr a
          else
            let m1 = update m (in_raw_rms inp) (in_update_now inp)
            in draw_mic_badge False (in_badge_now inp)
                 (a\<lparr>last_mic_poll := in_poll_now inp, mic := Some m1, mic_quiet := quiet m1,
                    mic_rms := ema_rms m1\<rparr>))"

text \<open>
  The body of \<^verbatim>\<open>while True\<close>. The source reads the sample with
  \<^verbatim>\<open>tp.read(samples=9, delay_us=120) if tp.touched() else None\<close>. \<open>dispatch\<close> stands for
  the block under \<^verbatim>\<open>if down and not was_down\<close> (the debounce, the scan of the screen's
  buttons and the action of the button hit), given the loop's tick value and the point.
\<close>

definition main_iteration ::
  "(int \<Rightarrow> int \<Rightarrow> int \<Rightarrow> app \<Rightarrow> exn + app) \<Rightarrow> loop_input \<Rightarrow> app \<Rightarrow> exn + app" where
  "main_iteration dispatch inp a =
     then_do (poll_mic_and_update_badge inp a) (\<lambda>a1.
       let hw = (tp a1)\<lparr>irq_pin := Some (in_irq inp)\<rparr>;
           (t, hw1) = (if touched hw then tp_call ''read'' 9 120 hw else (Inr None, hw))
       in then_do t (\<lambda>sample.
            let a2 = a1\<lparr>tp := hw1\<rparr>;
                (down, sx, sy, a3) =
                  (case sample of
                     None \<Rightarrow> (False, 0, 0, a2)
                   | Some (rx, ry, p) \<Rightarrow>
                       if p \<le> P_MAX CAL
                       then (let (sx, sy) = raw_to_screen CAL rx ry
                             in (True, sx, sy, debug_dot sx sy a2))
                       else (False, 0, 0, a2))
            in then_do (if down \<and> \<not> was_down a3 then dispatch (in_now inp) sx sy a3 else Inr a3)
                 (\<lambda>a4. Inr (a4\<lparr>was_down := down\<rparr>))))"

text \<open>The loop over the inputs of its first iterations; an exception ends it.\<close>

fun main_loop ::
  "(int \<Rightarrow> int \<Rightarrow> int \<Rightarrow> app \<Rightarrow> exn + app) \<Rightarrow> app \<Rightarrow> loop_input list \<Rightarrow> exn + app" where
  "main_loop dispatch a [] = Inr a"
| "main_loop dispatch a (inp # inps) =
     then_do (main_iteration dispatch inp a) (\<lambda>b. main_loop dispatch b inps)"

text \<open>An iteration at tick \<open>t\<close> with the screen untouched, and one with a finger down.\<close>

definition idle_input :: "int \<Rightarrow> loop_input" where
  "idle_input t =
     \<lparr>in_now = t, in_poll_now = t, in_raw_rms = 0, in_update_now = t + 40,
      in_badge_now = t + 40, in_irq = 1\<rparr>"

definition touch_input :: "int \<Rightarrow> loop_input" where
  "touch_input t = (idle_input t)\<lparr>in_irq := 0\<rparr>"

section \<open>Properties of the touch mapping\<close>

lemma floor_linear:
  "\<lfloor>real_of_int a * real_of_int b / real_of_int d\<rfloor> = a * b div d"
proof -
  have "real_of_int a * real_of_int b / real_of_int d = real_of_int (a * b) / real_of_int d"
    by simp
  then show ?thesis
    by (simp only: floor_divide_of_int_eq)
qed

lemma map_linear_spec:
  assumes "lo < hi" and "1 \<le> ext"
  shows "map_linear r lo hi 0 (ext - 1) = spec_linear lo hi ext r"
proof -
  have "spec_linear lo hi ext r = max 0 (min (ext - 1) ((r - lo) * (ext - 1) div (hi - lo)))"
    unfolding spec_linear_def by (simp only: floor_linear)
  then show ?thesis
    using assms by (simp add: map_linear_def clamp_def min_def max_def)
qed

lemma map_linear_range:
  assumes "1 \<le> ext"
  shows "0 \<le> map_linear r lo hi 0 (ext - 1) \<and> map_linear r lo hi 0 (ext - 1) \<le> ext - 1"
  using assms
  by (simp add: map_linear_def clamp_def min_def max_def)

lemma map_linear_below:
  assumes "lo < hi" and "1 \<le> ext" and "r \<le> lo"
  shows "map_linear r lo hi 0 (ext - 1) = 0"
proof -
  have "(r - lo) * (ext - 1) \<le> 0"
    using assms by (simp add: mult_le_0_iff)
  then have "(r - lo) * (ext - 1) div (hi - lo) \<le> 0"
    using assms(1) by (simp add: div_nonpos_pos_le0)
  then show ?thesis
    using assms by (simp add: map_linear_def clamp_def min_def max_def)
qed

lemma map_linear_above:
  assumes "lo < hi" and "1 \<le> ext" and "hi \<le> r"
  shows "map_linear r lo hi 0 (ext - 1) = ext - 1"
proof -
  have "(hi - lo) * (ext - 1) \<le> (r - lo) * (ext - 1)"
    using assms by (intro mult_right_mono) simp_all
  then have "(hi - lo) * (ext - 1) div (hi - lo) \<le> (r - lo) * (ext - 1) div (hi - lo)"
    using assms(1) by (intro zdiv_mono1) simp_all
  moreover have "(hi - lo) * (ext - 1) div (hi - lo) = ext - 1"
    using assms(1) by simp
  ultimately have "ext - 1 \<le> (r - lo) * (ext - 1) div (hi - lo)"
    by simp
  then show ?thesis
    using assms by (simp add: map_linear_def clamp_def min_def max_def)
qed

lemma raw_to_screen_axes:
  "raw_to_screen c rx ry =
     (map_linear (spec_axis_x c rx ry) (RAW_X_LEFT c) (RAW_X_RIGHT c) 0 (W c - 1),
      map_linear (spec_axis_y c rx ry) (RAW_Y_TOP c) (RAW_Y_BOT c) 0 (H c - 1))"
  by (simp add: raw_to_screen_def spec_axis_x_def spec_axis_y_def spec_swap_def spec_reflect_def)

text \<open>
  C5. With a calibration whose raw ranges are increasing and whose screen has at least
  one pixel in each direction (the shipped table is one), the code's mapping is the
  swap, then the reflection about 3800, then the clamped linear map of each axis; each
  coordinate lies in \<open>0 .. ext - 1\<close>; a transformed raw value at or below the calibrated
  minimum maps to 0 and one at or above the calibrated maximum maps to \<open>ext - 1\<close>.
\<close>

theorem raw_to_screen_clamped_linear:
  assumes "RAW_X_LEFT c < RAW_X_RIGHT c" and "RAW_Y_TOP c < RAW_Y_BOT c"
    and "1 \<le> W c" and "1 \<le> H c"
  shows "raw_to_screen c rx ry =
           (spec_linear (RAW_X_LEFT c) (RAW_X_RIGHT c) (W c) (spec_axis_x c rx ry),
            spec_linear (RAW_Y_TOP c) (RAW_Y_BOT c) (H c) (spec_axis_y c rx ry))
       \<and> 0 \<le> fst (raw_to_screen c rx ry) \<and> fst (raw_to_screen c rx ry) \<le> W c - 1
       \<and> 0 \<le> snd (raw_to_screen c rx ry) \<and> snd (raw_to_screen c rx ry) \<le> H c - 1
       \<and> (spec_axis_x c rx ry \<le> RAW_X_LEFT c \<longrightarrow> fst (raw_to_screen c rx ry) = 0)
       \<and> (RAW_X_RIGHT c \<le> spec_axis_x c rx ry \<longrightarrow> fst (raw_to_screen c rx ry) = W c - 1)
       \<and> (spec_axis_y c rx ry \<le> RAW_Y_TOP c \<longrightarrow> snd (raw_to_screen c rx ry) = 0)
       \<and> (RAW_Y_BOT c \<le> spec_axis_y c rx ry \<longrightarrow> snd (raw_to_screen c rx ry) = H c - 1)"
proof -
  have eq: "raw_to_screen c rx ry =
           (spec_linear (RAW_X_LEFT c) (RAW_X_RIGHT c) (W c) (spec_axis_x c rx ry),
            spec_linear (RAW_Y_TOP c) (RAW_Y_BOT c) (H c) (spec_axis_y c rx ry))"
    using assms by (simp add: raw_to_screen_axes map_linear_spec)
  have rx: "0 \<le> fst (raw_to_screen c rx ry) \<and> fst (raw_to_screen c rx ry) \<le> W c - 1"
    using assms(3) map_linear_range [of "W c"] by (simp add: raw_to_screen_axes)
  have ry: "0 \<le> snd (raw_to_screen c rx ry) \<and> snd (raw_to_screen c rx ry) \<le> H c - 1"
    using assms(4) map_linear_range [of "H c"] by (simp add: raw_to_screen_axes)
  have x0: "spec_axis_x c rx ry \<le> RAW_X_LEFT c \<longrightarrow> fst (raw_to_screen c rx ry) = 0"
    using assms by (simp add: raw_to_screen_axes map_linear_below)
  have x1: "RAW_X_RIGHT c \<le> spec_axis_x c rx ry \<longrightarrow> fst (raw_to_screen c rx ry) = W c - 1"
    using assms by (simp add: raw_to_screen_axes map_linear_above)
  have y0: "spec_axis_y c rx ry \<le> RAW_Y_TOP c \<longrightarrow> snd (raw_to_screen c rx ry) = 0"
    using assms by (simp add: raw_to_screen_axes map_linear_below)
  have y1: "RAW_Y_BOT c \<le> spec_axis_y c rx ry \<longrightarrow> snd (raw_to_screen c rx ry) = H c - 1"
    using assms by (simp add: raw_to_screen_axes map_linear_above)
  from eq rx ry x0 x1 y0 y1 show ?thesis
    by blast
qed

text \<open>
  The shipped table (swap, flipped X): the raw sample \<open>(100, 1000)\<close> has the X value
  \<open>3800 - 1000\<close>, above the calibrated maximum, and the Y value 100, below the
  minimum; \<open>(2000, 3700)\<close> is the opposite corner.
\<close>

theorem raw_to_screen_clamped_linear_witness:
  "RAW_X_LEFT CAL < RAW_X_RIGHT CAL \<and> RAW_Y_TOP CAL < RAW_Y_BOT CAL
   \<and> 1 \<le> W CAL \<and> 1 \<le> H CAL
   \<and> RAW_X_RIGHT CAL \<le> spec_axis_x CAL 100 1000 \<and> spec_axis_y CAL 100 1000 \<le> RAW_Y_TOP CAL
   \<and> raw_to_screen CAL 100 1000 = (479, 0)
   \<and> spec_axis_x CAL 2000 3700 \<le> RAW_X_LEFT CAL \<and> RAW_Y_BOT CAL \<le> spec_axis_y CAL 2000 3700
   \<and> raw_to_screen CAL 2000 3700 = (0, 319)"
proof -
  have c: "RAW_X_LEFT CAL < RAW_X_RIGHT CAL" "RAW_Y_TOP CAL < RAW_Y_BOT CAL"
    "1 \<le> W CAL" "1 \<le> H CAL"
    by (simp_all add: CAL_def)
  have a: "RAW_X_RIGHT CAL \<le> spec_axis_x CAL 100 1000" "spec_axis_y CAL 100 1000 \<le> RAW_Y_TOP CAL"
    "spec_axis_x CAL 2000 3700 \<le> RAW_X_LEFT CAL" "RAW_Y_BOT CAL \<le> spec_axis_y CAL 2000 3700"
    by (simp_all add: CAL_def spec_axis_x_def spec_axis_y_def spec_swap_def spec_reflect_def)
  have "raw_to_screen CAL 100 1000 = (W CAL - 1, 0)"
    using raw_to_screen_clamped_linear [OF c, of 100 1000] a
    by (simp add: prod_eq_iff)
  moreover have "raw_to_screen CAL 2000 3700 = (0, H CAL - 1)"
    using raw_to_screen_clamped_linear [OF c, of 2000 3700] a
    by (simp add: prod_eq_iff)
  ultimately show ?thesis
    using c a by (simp add: CAL_def)
qed

section \<open>Properties of the hit test\<close>

text \<open>
  C10. A point is inside a button exactly when \<open>x \<le> px < x + w\<close> and
  \<open>y \<le> py < y + h\<close>; no point of the column \<open>px = x + w\<close> and no point of the row
  \<open>py = y + h\<close> is inside.
\<close>

theorem contains_half_open:
  "(contains b px py \<longleftrightarrow>
      px \<in> {btn_x b ..< btn_x b + btn_w b} \<and> py \<in> {btn_y b ..< btn_y b + btn_h b})
   \<and> \<not> contains b (btn_x b + btn_w b) py
   \<and> \<not> contains b px (btn_y b + btn_h b)"
  by (simp add: contains_def)

text \<open>
  The application's first menu button, at \<open>(20, 60)\<close> with size \<open>440 \<times> 68\<close>:
  its top-left pixel is inside, the first column and row past it are not.
\<close>

theorem contains_half_open_witness:
  "contains \<lparr>btn_x = 20, btn_y = 60, btn_w = 440, btn_h = 68, btn_label = ''GROUNDING TECHNIQUES''\<rparr> 20 60
   \<and> contains \<lparr>btn_x = 20, btn_y = 60, btn_w = 440, btn_h = 68, btn_label = ''GROUNDING TECHNIQUES''\<rparr> 459 127
   \<and> \<not> contains \<lparr>btn_x = 20, btn_y = 60, btn_w = 440, btn_h = 68, btn_label = ''GROUNDING TECHNIQUES''\<rparr> 460 127
   \<and> \<not> contains \<lparr>btn_x = 20, btn_y = 60, btn_w = 440, btn_h = 68, btn_label = ''GROUNDING TECHNIQUES''\<rparr> 459 128"
  using contains_half_open [of "\<lparr>btn_x = 20, btn_y = 60, btn_w = 440, btn_h = 68, btn_label = ''GROUNDING TECHNIQUES''\<rparr>" 20 60]
    contains_half_open [of "\<lparr>btn_x = 20, btn_y = 60, btn_w = 440, btn_h = 68, btn_label = ''GROUNDING TECHNIQUES''\<rparr>" 459 127]
  by simp

section \<open>Properties of the touch digitizer driver\<close>

lemma samples_Suc:
  "y_samples hw (Suc n) =
     decode12 (spi_rx hw (transfers hw)) #
     y_samples (hw\<lparr>transfers := transfers hw + 2, tp_trace := t\<rparr>) n"
  "x_samples hw (Suc n) =
     decode12 (spi_rx hw (transfers hw + 1)) #
     x_samples (hw\<lparr>transfers := transfers hw + 2, tp_trace := t\<rparr>) n"
  by (simp_all add: y_samples_def x_samples_def map_upt_Suc del: upt_Suc)

lemma length_samples [simp]:
  "length (x_samples hw n) = n" "length (y_samples hw n) = n"
  by (simp_all add: x_samples_def y_samples_def)

text \<open>The loop takes \<open>n\<close> rounds, each a Y exchange, an X exchange and a sleep.\<close>

lemma sample_loop_eq:
  "sample_loop n d xs ys hw =
     ((xs @ x_samples hw n, ys @ y_samples hw n),
      hw\<lparr>transfers := transfers hw + 2 * n,
         tp_trace := tp_trace hw @ concat (replicate n (pair_trace d))\<rparr>)"
proof (induction n arbitrary: xs ys hw)
  case 0
  show ?case by (simp add: x_samples_def y_samples_def)
next
  case (Suc n)
  let ?hw = "hw\<lparr>transfers := transfers hw + 2, tp_trace := tp_trace hw @ pair_trace d\<rparr>"
  have "sample_loop (Suc n) d xs ys hw =
          sample_loop n d (xs @ [decode12 (spi_rx hw (transfers hw + 1))])
            (ys @ [decode12 (spi_rx hw (transfers hw))]) ?hw"
    by (simp add: read12_def sleep_us_def pair_trace_def)
  also have "\<dots> = ((xs @ x_samples hw (Suc n), ys @ y_samples hw (Suc n)),
      hw\<lparr>transfers := transfers hw + 2 * Suc n,
         tp_trace := tp_trace hw @ concat (replicate (Suc n) (pair_trace d))\<rparr>)"
    by (simp add: Suc.IH samples_Suc [of hw n "tp_trace hw @ pair_trace d"])
  finally show ?case .
qed

lemma sorted_hd_Min:
  assumes "sorted s" and "s \<noteq> []"
  shows "hd s = Min (set (s::int list))"
proof -
  obtain a t where s: "s = a # t"
    using assms(2) by (cases s) auto
  have "\<forall>v\<in>set s. a \<le> v"
    using assms(1) s by auto
  then have "Min (set s) = a"
    using s by (intro Min_eqI) auto
  then show ?thesis
    using s by simp
qed

lemma sorted_last_Max:
  assumes "sorted s" and "s \<noteq> []"
  shows "last s = Max (set (s::int list))"
proof -
  have "\<forall>v\<in>set s. v \<le> last s"
  proof
    fix v assume "v \<in> set s"
    then obtain i where i: "i < length s" "s ! i = v"
      by (auto simp: in_set_conv_nth)
    then have "s ! i \<le> s ! (length s - 1)"
      using assms(1) by (intro sorted_nth_mono) auto
    then show "v \<le> last s"
      using i assms(2) by (simp add: last_conv_nth)
  qed
  then have "Max (set s) = last s"
    using assms(2) by (intro Max_eqI) auto
  then show ?thesis by simp
qed

text \<open>In a sorted list, what is smaller than the element at \<open>i\<close> stands before it.\<close>

lemma sorted_below_count:
  assumes "sorted (s::int list)" and "i < length s"
  shows "length (filter (\<lambda>v. v < s ! i) s) \<le> i"
proof -
  have "\<forall>v\<in>set (drop i s). s ! i \<le> v"
  proof
    fix v assume "v \<in> set (drop i s)"
    then obtain j where j: "j < length s - i" "s ! (i + j) = v"
      by (auto simp: in_set_conv_nth)
    have "s ! i \<le> s ! (i + j)"
      using assms(1) j(1) by (intro sorted_nth_mono) auto
    then show "s ! i \<le> v" using j by simp
  qed
  then have d: "filter (\<lambda>v. v < s ! i) (drop i s) = []"
    by (auto simp: filter_empty_conv)
  have "filter (\<lambda>v. v < s ! i) s = filter (\<lambda>v. v < s ! i) (take i s @ drop i s)"
    by simp
  also have "\<dots> = filter (\<lambda>v. v < s ! i) (take i s)"
    using d by (simp only: filter_append append_Nil2)
  finally have "length (filter (\<lambda>v. v < s ! i) s) \<le> length (take i s)"
    by (simp only: length_filter_le)
  then show ?thesis by simp
qed

lemma sorted_above_count:
  assumes "sorted (s::int list)" and "i < length s"
  shows "length (filter (\<lambda>v. s ! i < v) s) \<le> length s - Suc i"
proof -
  have "\<forall>v\<in>set (take (Suc i) s). v \<le> s ! i"
  proof
    fix v assume "v \<in> set (take (Suc i) s)"
    then obtain j where j: "j < Suc i" "s ! j = v"
      using assms(2) by (auto simp: in_set_conv_nth)
    have "s ! j \<le> s ! i"
      using assms j(1) by (intro sorted_nth_mono) auto
    then show "v \<le> s ! i" using j by simp
  qed
  then have d: "filter (\<lambda>v. s ! i < v) (take (Suc i) s) = []"
    by (auto simp: filter_empty_conv)
  have "filter (\<lambda>v. s ! i < v) s = filter (\<lambda>v. s ! i < v) (take (Suc i) s @ drop (Suc i) s)"
    by simp
  also have "\<dots> = filter (\<lambda>v. s ! i < v) (drop (Suc i) s)"
    using d by (simp only: filter_append append_Nil)
  finally have "length (filter (\<lambda>v. s ! i < v) s) \<le> length (drop (Suc i) s)"
    by (simp only: length_filter_le)
  then show ?thesis by simp
qed

lemma length_filter_sort:
  "length (filter P (sort (xs::int list))) = length (filter P xs)"
  by (simp add: filter_sort)

text \<open>At most half of the samples are smaller than the median, at most half larger.\<close>

lemma median_counts:
  assumes "vs \<noteq> []"
  shows "length (filter (\<lambda>v. v < median vs) vs) \<le> length vs div 2
       \<and> length (filter (\<lambda>v. median vs < v) vs) \<le> length vs div 2"
proof -
  let ?s = "sort vs" and ?i = "length vs div 2"
  have i: "?i < length ?s"
    using assms by simp
  have "length (filter (\<lambda>v. v < ?s ! ?i) ?s) \<le> ?i"
    using i by (intro sorted_below_count) simp_all
  moreover have "length (filter (\<lambda>v. ?s ! ?i < v) ?s) \<le> length ?s - Suc ?i"
    using i by (intro sorted_above_count) simp_all
  moreover have "length ?s - Suc ?i \<le> ?i"
    by simp
  ultimately show ?thesis
    unfolding median_def by (simp only: length_filter_sort) simp
qed

lemma get_raw_sampled:
  assumes "1 \<le> samples" and "touched hw"
  shows "get_raw samples d hw =
     (Inr (Some (median (x_samples hw (nat samples)), median (y_samples hw (nat samples)),
                 spread (x_samples hw (nat samples)) + spread (y_samples hw (nat samples)))),
      hw\<lparr>transfers := transfers hw + 2 * nat samples,
         tp_trace := tp_trace hw @ concat (replicate (nat samples) (pair_trace d))\<rparr>)"
proof -
  let ?n = "nat samples"
  have n: "0 < ?n" using assms(1) by simp
  have ne: "x_samples hw ?n \<noteq> []" "y_samples hw ?n \<noteq> []"
    using n by (simp_all flip: length_greater_0_conv)
  have sx: "sort (x_samples hw ?n) \<noteq> []" "sort (y_samples hw ?n) \<noteq> []"
    using ne by (simp_all flip: set_empty)
  have hx: "last (sort (x_samples hw ?n)) - hd (sort (x_samples hw ?n)) = spread (x_samples hw ?n)"
    using sx(1) by (simp add: spread_def sorted_hd_Min sorted_last_Max)
  have hy: "last (sort (y_samples hw ?n)) - hd (sort (y_samples hw ?n)) = spread (y_samples hw ?n)"
    using sx(2) by (simp add: spread_def sorted_hd_Min sorted_last_Max)
  have g: "\<not> (irq_pin hw \<noteq> None \<and> \<not> touched hw)"
    using assms(2) by simp
  show ?thesis
    unfolding get_raw_def
    by (simp only: g if_False sample_loop_eq append_Nil Let_def prod.case sx hx hy
        length_sort length_samples median_def)
qed

lemma demo_samples:
  "x_samples demo_hw 5 = [10, 50, 12, 48, 11]" "y_samples demo_hw 5 = [20, 21, 90, 22, 19]"
  by code_simp+

text \<open>
  C2. When the digitizer is touched (or has no interrupt line) and the sample count is
  at least 1, \<^verbatim>\<open>get_raw\<close> does \<open>n\<close> rounds of a Y exchange, an X exchange and a sleep,
  and returns the median of the X readings, the median of the Y readings and the sum of
  the two ranges; at most half of the readings of an axis lie below its median and at
  most half above. For the X readings 10, 50, 12, 48, 11 and the Y readings
  20, 21, 90, 22, 19 the result is \<open>(12, 21, 111)\<close>.
\<close>

theorem get_raw_median_and_spread:
  assumes "1 \<le> samples" and "touched hw"
  shows "get_raw samples d hw =
           (Inr (Some (median (x_samples hw (nat samples)), median (y_samples hw (nat samples)),
              spread (x_samples hw (nat samples)) + spread (y_samples hw (nat samples)))),
            hw\<lparr>transfers := transfers hw + 2 * nat samples,
               tp_trace := tp_trace hw @ concat (replicate (nat samples) (pair_trace d))\<rparr>)
       \<and> length (filter (\<lambda>v. v < median (x_samples hw (nat samples))) (x_samples hw (nat samples)))
           \<le> nat samples div 2
       \<and> length (filter (\<lambda>v. median (x_samples hw (nat samples)) < v) (x_samples hw (nat samples)))
           \<le> nat samples div 2
       \<and> length (filter (\<lambda>v. v < median (y_samples hw (nat samples))) (y_samples hw (nat samples)))
           \<le> nat samples div 2
       \<and> length (filter (\<lambda>v. median (y_samples hw (nat samples)) < v) (y_samples hw (nat samples)))
           \<le> nat samples div 2
       \<and> (x_samples hw (nat samples) = [10, 50, 12, 48, 11]
            \<and> y_samples hw (nat samples) = [20, 21, 90, 22, 19]
          \<longrightarrow> fst (get_raw samples d hw) = Inr (Some (12, 21, 111)))"
proof -
  let ?n = "nat samples"
  have ne: "x_samples hw ?n \<noteq> []" "y_samples hw ?n \<noteq> []"
    using assms(1) by (simp_all flip: length_greater_0_conv)
  note r = get_raw_sampled [OF assms, of d]
  have cx: "length (filter (\<lambda>v. v < median (x_samples hw ?n)) (x_samples hw ?n)) \<le> ?n div 2
      \<and> length (filter (\<lambda>v. median (x_samples hw ?n) < v) (x_samples hw ?n)) \<le> ?n div 2"
    using median_counts [OF ne(1)] by simp
  have cy: "length (filter (\<lambda>v. v < median (y_samples hw ?n)) (y_samples hw ?n)) \<le> ?n div 2
      \<and> length (filter (\<lambda>v. median (y_samples hw ?n) < v) (y_samples hw ?n)) \<le> ?n div 2"
    using median_counts [OF ne(2)] by simp
  have ex: "x_samples hw ?n = [10, 50, 12, 48, 11] \<and> y_samples hw ?n = [20, 21, 90, 22, 19]
      \<longrightarrow> fst (get_raw samples d hw) = Inr (Some (12, 21, 111))"
  proof
    assume a: "x_samples hw ?n = [10, 50, 12, 48, 11] \<and> y_samples hw ?n = [20, 21, 90, 22, 19]"
    have "median [10, 50, 12, 48, 11] = 12" "median [20, 21, 90, 22, 19] = 21"
      "spread [10, 50, 12, 48, 11] = 40" "spread [20, 21, 90, 22, 19] = 71"
      by (simp_all add: median_def spread_def)
    then show "fst (get_raw samples d hw) = Inr (Some (12, 21, 111))"
      using a by (simp add: r)
  qed
  from r cx cy ex show ?thesis
    by blast
qed

theorem get_raw_median_and_spread_witness:
  "(1::int) \<le> 5 \<and> touched demo_hw
   \<and> x_samples demo_hw (nat 5) = [10, 50, 12, 48, 11]
   \<and> y_samples demo_hw (nat 5) = [20, 21, 90, 22, 19]
   \<and> fst (get_raw 5 200 demo_hw) = Inr (Some (12, 21, 111))
   \<and> transfers (snd (get_raw 5 200 demo_hw)) = 10"
proof -
  have h: "(1::int) \<le> 5" "touched demo_hw"
    by (simp_all add: touched_def demo_hw_def)
  have s: "x_samples demo_hw (nat 5) = [10, 50, 12, 48, 11]"
    "y_samples demo_hw (nat 5) = [20, 21, 90, 22, 19]"
    using demo_samples by simp_all
  have t: "transfers demo_hw = 0"
    by (simp add: demo_hw_def)
  note g = get_raw_median_and_spread [OF h, of 200]
  from g s have r: "fst (get_raw 5 200 demo_hw) = Inr (Some (12, 21, 111))"
    by blast
  from g have "snd (get_raw 5 200 demo_hw) =
      demo_hw\<lparr>transfers := transfers demo_hw + 2 * nat 5,
         tp_trace := tp_trace demo_hw @ concat (replicate (nat 5) (pair_trace 200))\<rparr>"
    by simp
  then have n: "transfers (snd (get_raw 5 200 demo_hw)) = 10"
    using t by simp
  from h s r n show ?thesis
    by blast
qed

section \<open>Properties of the display driver\<close>












lemma written_bytes_append [simp]:
  "written_bytes (es @ fs) = written_bytes es @ written_bytes fs"
  by (induction es rule: written_bytes.induct) simp_all

lemma written_bytes_replicate [simp]:
  "written_bytes (replicate k (Lcd_write d)) = concat (replicate k d)"
  by (induction k) simp_all

















section \<open>Properties of the ambient sound classifier\<close>

lemma update_params [simp]:
  "ema_alpha (update m r n) = ema_alpha m"
  "quiet_threshold (update m r n) = quiet_threshold m"
  "hysteresis (update m r n) = hysteresis m"
  "quiet_hold_ms (update m r n) = quiet_hold_ms m"
  by (simp_all add: update_def Let_def split: option.splits)

lemma update_ema [simp]: "ema_rms (update m r n) = smoothed m r"
  by (simp add: update_def smoothed_def Let_def split: option.splits)


lemma run_threshold [simp]: "quiet_threshold (run m ps) = quiet_threshold m"
  by (induction ps arbitrary: m) simp_all

lemma run_hold [simp]: "quiet_hold_ms (run m ps) = quiet_hold_ms m"
  by (induction ps arbitrary: m) simp_all





lemma mod_diff_shift:
  "(b mod p - a mod p + h) mod p = (b - a + h) mod (p::int)"
proof -
  have "(b mod p - a mod p + h) mod p = ((b mod p - a mod p) mod p + h) mod p"
    by (simp only: mod_add_left_eq)
  also have "\<dots> = ((b - a) mod p + h) mod p"
    by (simp only: mod_diff_eq)
  also have "\<dots> = (b - a + h) mod p"
    by (simp only: mod_add_left_eq)
  finally show ?thesis .
qed



lemma ticks_diff_exact:
  assumes "a \<le> b" and "b - a < 2 ^ 29"
  shows "ticks_diff (ticks_ms b) (ticks_ms a) = b - a"
proof -
  have d: "ticks_diff (ticks_ms b) (ticks_ms a) = (b - a + 2 ^ 29) mod 2 ^ 30 - 2 ^ 29"
    unfolding ticks_diff_def ticks_ms_def TICKS_PERIOD_def
    by (simp add: mod_diff_shift [of b "2 ^ 30" a "2 ^ 29", simplified])
  have "(b - a + 2 ^ 29) mod 2 ^ 30 = b - a + (2 ^ 29 :: int)"
    using assms by (intro mod_pos_pos_trivial) simp_all
  then show ?thesis
    using d by simp
qed






section \<open>Properties of the word wrap\<close>

lemma split_on_nonempty [simp]: "split_on sep s \<noteq> []"
  by (induction s) (auto split: list.splits)

lemma split_on_pieces:
  "p \<in> set (split_on sep s) \<Longrightarrow> set p \<subseteq> set s \<and> sep \<notin> set p"
proof (induction s arbitrary: p)
  case Nil
  then show ?case by simp
next
  case (Cons c cs)
  show ?case
  proof (cases "c = sep")
    case True
    then show ?thesis
      using Cons.prems Cons.IH by auto
  next
    case False
    obtain q qs where q: "split_on sep cs = q # qs"
      using split_on_nonempty [of sep cs] by (cases "split_on sep cs") auto
    then have "p = c # q \<or> p \<in> set qs"
      using Cons.prems False by simp
    then show ?thesis
    proof
      assume "p = c # q"
      moreover have "set q \<subseteq> set cs \<and> sep \<notin> set q"
        using Cons.IH [of q] q by simp
      ultimately show ?thesis
        using False by auto
    next
      assume "p \<in> set qs"
      then have "set p \<subseteq> set cs \<and> sep \<notin> set p"
        using Cons.IH [of p] q by simp
      then show ?thesis by auto
    qed
  qed
qed

lemma split_on_absent: "sep \<notin> set s \<Longrightarrow> split_on sep s = [s]"
  by (induction s) auto

text \<open>A line is clean when it is empty or starts and ends with a character that is not white space.\<close>

lemma strip_clean:
  assumes "s \<noteq> []" and "\<not> is_space (hd s)" and "\<not> is_space (last s)"
  shows "strip s = s"
proof -
  have a: "dropWhile is_space s = s"
    using assms(1,2) by (cases s) auto
  have "rev s \<noteq> []" "\<not> is_space (hd (rev s))"
    using assms(1,3) by (simp_all add: hd_rev)
  then have "dropWhile is_space (rev s) = rev s"
    by (cases "rev s") auto
  then show ?thesis
    by (simp add: strip_def a)
qed

lemma strip_space_cons: "strip (CHR '' '' # t) = strip t"
  by (simp add: strip_def is_space_def)

lemma strip_Nil [simp]: "strip [] = []"
  by (simp add: strip_def)

lemma strip_trailing_space:
  assumes "s \<noteq> []" and "\<not> is_space (hd s)" and "\<not> is_space (last s)"
  shows "strip (s @ '' '') = s"
proof -
  have a: "dropWhile is_space (s @ '' '') = s @ '' ''"
    using assms(1,2) by (cases s) auto
  have "rev s \<noteq> []" "\<not> is_space (hd (rev s))"
    using assms(1,3) by (simp_all add: hd_rev)
  then have "dropWhile is_space (rev s) = rev s"
    by (cases "rev s") auto
  then show ?thesis
    by (simp add: strip_def a is_space_def)
qed

lemma no_space_clean: "no_space t \<Longrightarrow> clean t"
  by (cases t rule: rev_cases) (auto simp: no_space_def clean_def list_all_iff hd_append)

lemma clean_join:
  assumes "clean cur" and "cur \<noteq> []" and "no_space t" and "t \<noteq> []"
  shows "strip (cur @ '' '' @ t) = cur @ '' '' @ t" and "clean (cur @ '' '' @ t)"
proof -
  have h: "\<not> is_space (hd (cur @ '' '' @ t))"
    using assms(1,2) by (simp add: clean_def)
  have l: "\<not> is_space (last (cur @ '' '' @ t))"
    using assms(3,4) by (simp add: no_space_def list_all_iff)
  show "strip (cur @ '' '' @ t) = cur @ '' '' @ t"
    using h l by (intro strip_clean) simp_all
  show "clean (cur @ '' '' @ t)"
    using h l by (simp add: clean_def)
qed

lemma strip_no_space: "no_space t \<Longrightarrow> strip t = t"
proof (cases "t = []")
  case True
  then show ?thesis by simp
next
  case False
  assume "no_space t"
  then have "\<not> is_space (hd t)" "\<not> is_space (last t)"
    using False by (simp_all add: no_space_def list_all_iff)
  then show ?thesis
    using False by (intro strip_clean)
qed

lemma strip_clean_space:
  assumes "clean cur"
  shows "strip (cur @ '' '') = cur"
proof (cases "cur = []")
  case True
  then show ?thesis
    by (simp add: strip_space_cons)
next
  case False
  then show ?thesis
    using assms by (intro strip_trailing_space) (simp_all add: clean_def)
qed

text \<open>Placing a piece keeps the relation, whether the piece is empty or not.\<close>

lemma place_sim:
  assumes "sim mc c s" and "no_space t"
  shows "sim mc (place mc c t) (spec_step mc s (Word t))"
proof -
  obtain l cur where s: "s = (l, cur)"
    by (cases s) auto
  have cl: "clean cur"
    using assms(1) s by (simp add: sim_def)
  have ct: "clean t"
    using assms(2) by (rule no_space_clean)
  consider (same) "c = s"
    | (ahead) "cur \<noteq> []" "mc < int (length cur) + 1" "c = (l @ [cur], [])"
    using assms(1) s by (auto simp: sim_def)
  then show ?thesis
  proof cases
    case same
    show ?thesis
    proof (cases "t = []")
      case True
      then show ?thesis
        using same s cl by (auto simp: place_def sim_def flush_def strip_clean_space)
    next
      case False
      show ?thesis
      proof (cases "cur = []")
        case True
        then show ?thesis
          using same s False ct assms(2)
          by (auto simp: place_def sim_def flush_def strip_space_cons strip_no_space)
      next
        case nonempty: False
        then show ?thesis
          using same s False ct clean_join [OF cl nonempty assms(2) False]
          by (auto simp: place_def sim_def flush_def)
      qed
    qed
  next
    case ahead
    show ?thesis
    proof (cases "t = []")
      case True
      then show ?thesis
        using ahead s cl by (auto simp: place_def sim_def flush_def strip_space_cons)
    next
      case False
      then show ?thesis
        using ahead s ct assms(2)
        by (auto simp: place_def sim_def flush_def strip_space_cons strip_no_space)
    qed
  qed
qed

lemma break_sim:
  assumes "sim mc c s"
  shows "sim mc (flush (fst c) (snd c), []) (spec_step mc s Break)"
proof -
  obtain l cur where s: "s = (l, cur)"
    by (cases s) auto
  show ?thesis
    using assms s by (auto simp: sim_def flush_def clean_def)
qed

lemma skip_sim:
  assumes "sim mc c s"
  shows "sim mc c (spec_step mc s (Word []))"
proof -
  obtain l cur where s: "s = (l, cur)"
    by (cases s) auto
  show ?thesis
    using assms s by simp
qed

lemma parts_sim:
  assumes "\<forall>p\<in>set ps. no_space p" and "sim mc c s"
  shows "sim mc (wrap_parts mc ps c) (foldl (spec_step mc) s (part_tokens ps))"
  using assms
proof (induction ps arbitrary: c s rule: part_tokens.induct)
  case 1
  then show ?case by simp
next
  case (2 p)
  then show ?case
    by (cases "p = []") (simp_all add: place_sim skip_sim)
next
  case (3 p q ps)
  let ?c1 = "if p \<noteq> [] then place mc c p else c"
  let ?s1 = "spec_step mc s (Word p)"
  have "sim mc ?c1 ?s1"
    using "3.prems" by (cases "p = []") (simp_all add: place_sim skip_sim)
  then have "sim mc (flush (fst ?c1) (snd ?c1), []) (spec_step mc ?s1 Break)"
    by (rule break_sim)
  then have "sim mc (wrap_parts mc (q # ps) (flush (fst ?c1) (snd ?c1), []))
      (foldl (spec_step mc) (spec_step mc ?s1 Break) (part_tokens (q # ps)))"
    using "3.prems"(1) by (intro "3.IH") simp_all
  then show ?case
    by (simp add: Let_def)
qed


lemma plain_pieces:
  assumes "plain_text s" and "w \<in> set (split_on (CHR '' '') s)"
    and "p \<in> set (split_on (CHR 0x0A) w)"
  shows "no_space p"
proof -
  have w: "set w \<subseteq> set s" "CHR '' '' \<notin> set w"
    using split_on_pieces [OF assms(2)] by simp_all
  have p: "set p \<subseteq> set w" "CHR 0x0A \<notin> set p"
    using split_on_pieces [OF assms(3)] by simp_all
  have "\<not> is_space c" if "c \<in> set p" for c
  proof
    assume "is_space c"
    moreover have "c \<in> set s" using that p(1) w(1) by auto
    ultimately have "c = CHR '' '' \<or> c = CHR 0x0A"
      using assms(1) by (auto simp: plain_text_def list_all_iff)
    then show False
      using that p w(2) by auto
  qed
  then show ?thesis
    by (simp add: no_space_def list_all_iff)
qed

lemma word_sim:
  assumes "\<forall>p\<in>set (split_on (CHR 0x0A) w). no_space p" and "sim mc c s"
  shows "sim mc (wrap_word mc c w) (foldl (spec_step mc) s (part_tokens (split_on (CHR 0x0A) w)))"
proof (cases "CHR 0x0A \<in> set w")
  case True
  then show ?thesis
    using assms by (simp add: wrap_word_def parts_sim)
next
  case False
  then have one: "split_on (CHR 0x0A) w = [w]"
    by (rule split_on_absent)
  then have "no_space w"
    using assms(1) by simp
  then show ?thesis
    using False assms(2) one by (simp add: wrap_word_def place_sim)
qed

lemma words_sim:
  assumes "\<forall>w\<in>set ws. \<forall>p\<in>set (split_on (CHR 0x0A) w). no_space p" and "sim mc c s"
  shows "sim mc (foldl (wrap_word mc) c ws)
     (foldl (spec_step mc) s (concat (map (\<lambda>w. part_tokens (split_on (CHR 0x0A) w)) ws)))"
  using assms
proof (induction ws arbitrary: c s)
  case Nil
  then show ?case by simp
next
  case (Cons w ws)
  have "sim mc (wrap_word mc c w) (foldl (spec_step mc) s (part_tokens (split_on (CHR 0x0A) w)))"
    using Cons.prems by (intro word_sim) simp_all
  then show ?case
    using Cons.prems(1) by (simp add: Cons.IH)
qed

lemma sim_flush:
  assumes "sim mc c s"
  shows "flush (fst c) (snd c) = flush (fst s) (snd s)"
  using assms by (auto simp: sim_def flush_def)

lemma wrap_text_plain:
  assumes "plain_text s"
  shows "wrap_text s mc = spec_wrap s mc"
proof -
  have "sim mc ([], []) ([], [])"
    by (simp add: sim_def clean_def)
  then have "sim mc (foldl (wrap_word mc) ([], []) (split_on (CHR '' '') s))
      (foldl (spec_step mc) ([], []) (tokens s))"
    unfolding tokens_def using assms by (intro words_sim) (auto intro: plain_pieces)
  then show ?thesis
    using sim_flush by (auto simp: wrap_text_def spec_wrap_def split: prod.splits)
qed

lemma wrap_text_example: "wrap_text ''ONE TWO THREE'' 7 = [''ONE TWO'', ''THREE'']"
  by (simp add: wrap_text_def wrap_word_def place_def flush_def strip_def is_space_def)


lemma split_on_other:
  assumes "c \<noteq> sep"
  shows "split_on sep (a @ c # b) =
     butlast (split_on sep a) @ (last (split_on sep a) @ c # hd (split_on sep b)) # tl (split_on sep b)"
proof (induction a)
  case Nil
  obtain q qs where "split_on sep b = q # qs"
    using split_on_nonempty [of sep b] by (cases "split_on sep b") auto
  then show ?case
    using assms by simp
next
  case (Cons x a)
  obtain q qs where q: "split_on sep a = q # qs"
    using split_on_nonempty [of sep a] by (cases "split_on sep a") auto
  show ?case
  proof (cases "x = sep")
    case True
    then show ?thesis
      using Cons.IH by simp
  next
    case False
    show ?thesis
    proof (cases "qs = []")
      case True
      then show ?thesis
        using False q Cons.IH by simp
    next
      case nonempty: False
      then show ?thesis
        using False q Cons.IH by simp
    qed
  qed
qed

lemma split_on_same: "split_on sep (a @ sep # b) = split_on sep a @ split_on sep b"
proof (induction a)
  case Nil
  show ?case by simp
next
  case (Cons x a)
  obtain q qs where "split_on sep a = q # qs"
    using split_on_nonempty [of sep a] by (cases "split_on sep a") auto
  then show ?case
    using Cons.IH by simp
qed

lemma part_tokens_append:
  assumes "ps \<noteq> []" and "qs \<noteq> []"
  shows "part_tokens (ps @ qs) = part_tokens ps @ Break # part_tokens qs"
  using assms
proof (induction ps rule: part_tokens.induct)
  case 1
  then show ?case by simp
next
  case (2 p)
  then show ?case by (cases qs) simp_all
next
  case (3 p q ps)
  then show ?case by simp
qed

text \<open>A line break in the text is a break between the tokens of the two sides.\<close>

lemma tokens_line_break:
  "tokens (s1 @ CHR 0x0A # s2) = tokens s1 @ Break # tokens s2"
proof -
  let ?f = "\<lambda>w. part_tokens (split_on (CHR 0x0A) w)"
  let ?W1 = "split_on (CHR '' '') s1" and ?W2 = "split_on (CHR '' '') s2"
  have ne: "CHR 0x0A \<noteq> CHR '' ''"
    by simp
  have mid: "?f (last ?W1 @ CHR 0x0A # hd ?W2) = ?f (last ?W1) @ Break # ?f (hd ?W2)"
    by (simp add: split_on_same part_tokens_append)
  have "concat (map ?f (butlast ?W1 @ [last ?W1])) = concat (map ?f (butlast ?W1)) @ ?f (last ?W1)"
    by (simp del: append_butlast_last_id)
  then have c1: "concat (map ?f (butlast ?W1)) @ ?f (last ?W1) = tokens s1"
    unfolding tokens_def by simp
  have "concat (map ?f (hd ?W2 # tl ?W2)) = ?f (hd ?W2) @ concat (map ?f (tl ?W2))"
    by (simp del: list.collapse hd_Cons_tl)
  then have c2: "?f (hd ?W2) @ concat (map ?f (tl ?W2)) = tokens s2"
    unfolding tokens_def by simp
  have "tokens (s1 @ CHR 0x0A # s2) =
      concat (map ?f (butlast ?W1)) @ ?f (last ?W1 @ CHR 0x0A # hd ?W2) @ concat (map ?f (tl ?W2))"
    unfolding tokens_def by (simp add: split_on_other [OF ne])
  also have "\<dots> = (concat (map ?f (butlast ?W1)) @ ?f (last ?W1)) @ Break #
      (?f (hd ?W2) @ concat (map ?f (tl ?W2)))"
    by (simp only: mid append_assoc append_Cons)
  finally show ?thesis
    by (simp only: c1 c2)
qed

lemma spec_fold_prefix:
  "foldl (spec_step mc) (L @ l, cur) ts =
     (L @ fst (foldl (spec_step mc) (l, cur) ts), snd (foldl (spec_step mc) (l, cur) ts))"
proof (induction ts arbitrary: l cur)
  case Nil
  show ?case by simp
next
  case (Cons t ts)
  show ?case
  proof (cases t)
    case (Word w)
    then show ?thesis
      by (simp add: Cons.IH flush_def)
  next
    case Break
    then show ?thesis
      by (simp add: Cons.IH flush_def)
  qed
qed

lemma spec_wrap_line_break:
  "spec_wrap (s1 @ CHR 0x0A # s2) mc = spec_wrap s1 mc @ spec_wrap s2 mc"
proof -
  obtain l1 c1 where r1: "foldl (spec_step mc) ([], []) (tokens s1) = (l1, c1)"
    by (cases "foldl (spec_step mc) ([], []) (tokens s1)") auto
  obtain l2 c2 where r2: "foldl (spec_step mc) ([], []) (tokens s2) = (l2, c2)"
    by (cases "foldl (spec_step mc) ([], []) (tokens s2)") auto
  have "foldl (spec_step mc) ([], []) (tokens (s1 @ CHR 0x0A # s2)) =
      foldl (spec_step mc) (flush l1 c1 @ [], []) (tokens s2)"
    by (simp add: tokens_line_break r1)
  also have "\<dots> = (flush l1 c1 @ l2, c2)"
    by (simp only: spec_fold_prefix r2 fst_conv snd_conv)
  finally show ?thesis
    by (simp add: spec_wrap_def r1 r2 flush_def)
qed


lemma plain_text_append:
  "plain_text (a @ b) \<longleftrightarrow> plain_text a \<and> plain_text b"
  by (simp add: plain_text_def)

text \<open>
  C6, as amended. For text whose only white space is the space and the line feed, and
  for every budget, \<^verbatim>\<open>wrap_text\<close> returns the lines of the wrap the specification words:
  cut at spaces, a line break ends the current line whatever room is left, and a word
  joins the current line exactly when the line's length, plus one if the line is not
  empty, plus the word's length is within the budget, else the line is ended and the
  word starts the next. Such a text wraps as its part before a line break followed by
  its part after it. ``ONE TWO THREE'' with budget 7 gives ``ONE TWO'', ``THREE''.
\<close>

theorem wrap_text_refines_spec_wrap:
  "(plain_text s \<longrightarrow> wrap_text s budget = spec_wrap s budget)
   \<and> (plain_text (s1 @ CHR 0x0A # s2) \<longrightarrow>
        wrap_text (s1 @ CHR 0x0A # s2) budget = wrap_text s1 budget @ wrap_text s2 budget)
   \<and> wrap_text ''ONE TWO THREE'' 7 = [''ONE TWO'', ''THREE'']"
proof -
  have a: "plain_text s \<longrightarrow> wrap_text s budget = spec_wrap s budget"
    using wrap_text_plain by blast
  have b: "plain_text (s1 @ CHR 0x0A # s2) \<longrightarrow>
        wrap_text (s1 @ CHR 0x0A # s2) budget = wrap_text s1 budget @ wrap_text s2 budget"
  proof
    assume p: "plain_text (s1 @ CHR 0x0A # s2)"
    then have p1: "plain_text s1" and p2: "plain_text s2"
      using plain_text_append [of s1 "CHR 0x0A # s2"] plain_text_append [of "[CHR 0x0A]" s2]
      by simp_all
    show "wrap_text (s1 @ CHR 0x0A # s2) budget = wrap_text s1 budget @ wrap_text s2 budget"
      by (simp only: wrap_text_plain [OF p] wrap_text_plain [OF p1] wrap_text_plain [OF p2]
          spec_wrap_line_break)
  qed
  from a b wrap_text_example show ?thesis
    by blast
qed

theorem wrap_text_refines_spec_wrap_witness:
  "plain_text ''ONE TWO THREE''
   \<and> spec_wrap ''ONE TWO THREE'' 7 = [''ONE TWO'', ''THREE'']
   \<and> wrap_text ''ONE TWO THREE'' 7 = [''ONE TWO'', ''THREE'']
   \<and> plain_text (''Hold   4'' @ CHR 0x0A # ''Exhale 4'')
   \<and> wrap_text ''Hold   4'' 28 = [''Hold 4'']
   \<and> wrap_text ''Exhale 4'' 28 = [''Exhale 4'']
   \<and> wrap_text (''Hold   4'' @ CHR 0x0A # ''Exhale 4'') 28 = [''Hold 4'', ''Exhale 4'']"
proof -
  have p: "plain_text ''ONE TWO THREE''" "plain_text (''Hold   4'' @ CHR 0x0A # ''Exhale 4'')"
    by (simp_all add: plain_text_def is_space_def)
  have s: "spec_wrap ''ONE TWO THREE'' 7 = [''ONE TWO'', ''THREE'']"
    by (simp add: spec_wrap_def tokens_def flush_def)
  have w: "wrap_text ''ONE TWO THREE'' 7 = [''ONE TWO'', ''THREE'']"
    using wrap_text_refines_spec_wrap [of "''ONE TWO THREE''" 7] p(1) s by simp
  have h: "wrap_text ''Hold   4'' 28 = [''Hold 4'']" "wrap_text ''Exhale 4'' 28 = [''Exhale 4'']"
    by (simp_all add: wrap_text_def wrap_word_def place_def flush_def strip_def is_space_def)
  have b: "wrap_text (''Hold   4'' @ CHR 0x0A # ''Exhale 4'') 28 = [''Hold 4'', ''Exhale 4'']"
    using wrap_text_refines_spec_wrap [of _ 28 "''Hold   4''" "''Exhale 4''"] p(2) h
    by simp
  from p s w h b show ?thesis
    by blast
qed

text \<open>
  A word that starts with a tab: the code strips the tab when it places the word on
  the empty line, the wrap as worded keeps the word as it is.
\<close>

theorem wrap_text_tab_counterexample:
  "wrap_text [CHR 0x09, CHR ''A''] 5 = [''A'']
   \<and> spec_wrap [CHR 0x09, CHR ''A''] 5 = [[CHR 0x09, CHR ''A'']]"
  by (simp add: wrap_text_def wrap_word_def place_def flush_def strip_def is_space_def
      spec_wrap_def tokens_def)


section \<open>Properties of the ambient-noise badge\<close>

lemma then_do_Inr [simp]: "then_do (Inr v) f = f v"
  by (simp add: then_do_def)

lemma then_do_Inl [simp]: "then_do (Inl e) f = Inl e"
  by (simp add: then_do_def)

lemma th_ok: "theme_ok a \<Longrightarrow> th a = Inr (THEMES ! nat (theme_index a))"
  by (simp add: th_def py_index_def theme_ok_def Let_def)

lemma badge_calls_trace:
  "lcd_calls (badge_calls state t a) =
     lcd_calls a @
     [Fill_rect (W CAL - 132) 10 120 28 (if state then GREEN else MAG),
      Fill_rect (W CAL - 132) 10 120 1 (box_border t),
      Fill_rect (W CAL - 132) 37 120 1 (box_border t),
      Fill_rect (W CAL - 132) 10 1 28 (box_border t),
      Fill_rect (W CAL - 13) 10 1 28 (box_border t),
      Text (if state then ''QUIET OK'' else ''LOUD'')
        (W CAL - 132 + (120 - int (length (if state then ''QUIET OK'' else ''LOUD'')) * 16) div 2)
        16 (if state then BLACK else WHITE) (Some (if state then GREEN else MAG)) 2]"
  by (simp add: badge_calls_def draw_border_def lcd_send_def Let_def)

lemma badge_calls_frame:
  "badge_calls state t a = a\<lparr>lcd_calls := lcd_calls (badge_calls state t a)\<rparr>"
  by (simp add: badge_calls_def draw_border_def lcd_send_def Let_def)

text \<open>A forced request draws, whatever the time.\<close>

lemma badge_forced:
  assumes "mic a \<noteq> None" and "theme_ok a"
  shows "draw_mic_badge True now a =
     Inr ((badge_calls (mic_quiet a) (THEMES ! nat (theme_index a)) a)
            \<lparr>last_badge_state := Some (mic_quiet a), last_badge_draw := now\<rparr>)"
  using assms by (auto simp: draw_mic_badge_def th_ok Let_def)

text \<open>An unforced request that drew has set the time of the last draw to its own.\<close>

lemma badge_drew_stamp:
  assumes "draw_mic_badge False now a = Inr a1" and "lcd_calls a1 \<noteq> lcd_calls a"
  shows "last_badge_draw a1 = now"
proof -
  have "mic a \<noteq> None"
    using assms by (auto simp: draw_mic_badge_def split: if_splits)
  moreover have "\<not> ticks_diff now (last_badge_draw a) < MIC_DRAW_THROTTLE"
    using assms by (auto simp: draw_mic_badge_def split: if_splits)
  moreover have "Some (mic_quiet a) \<noteq> last_badge_state a"
    using assms by (auto simp: draw_mic_badge_def Let_def split: if_splits)
  ultimately show ?thesis
    using assms(1) by (cases "th a") (auto simp: draw_mic_badge_def Let_def)
qed

lemma badge_throttled:
  assumes "mic a \<noteq> None" and "ticks_diff now (last_badge_draw a) < MIC_DRAW_THROTTLE"
  shows "draw_mic_badge False now a = Inr a"
  using assms by (auto simp: draw_mic_badge_def)


lemma badge_keeps_mic:
  assumes "draw_mic_badge force now a = Inr a1"
  shows "mic a1 = mic a"
proof (cases "th a")
  case (Inl e)
  then show ?thesis
    using assms by (auto simp: draw_mic_badge_def Let_def split: if_splits)
next
  case (Inr t)
  have "mic (badge_calls (mic_quiet a) t a) = mic a"
    by (subst badge_calls_frame) simp
  then show ?thesis
    using assms Inr by (auto simp: draw_mic_badge_def Let_def split: if_splits)
qed

text \<open>
  C7, as amended. While the classifier is present (and the theme index selects a theme),
  a forced request draws the six calls of the badge whatever the time, also within
  250 ms of the last draw. When an unforced request performs a draw, an unforced request
  issued less than 250 ms after it performs none and leaves the state as it is: on the
  state the first left, and on any later state with the same time of the last draw.
\<close>

theorem badge_force_and_throttle:
  "(mic a \<noteq> None \<and> theme_ok a \<longrightarrow>
      draw_mic_badge True now a =
        Inr ((badge_calls (mic_quiet a) (THEMES ! nat (theme_index a)) a)
               \<lparr>last_badge_state := Some (mic_quiet a), last_badge_draw := now\<rparr>)
      \<and> length (lcd_calls (badge_calls (mic_quiet a) (THEMES ! nat (theme_index a)) a)) =
          length (lcd_calls a) + 6)
   \<and> (draw_mic_badge False (ticks_ms t1) a = Inr a1 \<and> lcd_calls a1 \<noteq> lcd_calls a
        \<and> t1 \<le> t2 \<and> t2 - t1 < 250 \<longrightarrow>
        draw_mic_badge False (ticks_ms t2) a1 = Inr a1)
   \<and> (draw_mic_badge False (ticks_ms t1) a = Inr a1 \<and> lcd_calls a1 \<noteq> lcd_calls a
        \<and> t1 \<le> t2 \<and> t2 - t1 < 250 \<and> mic a2 \<noteq> None \<and> last_badge_draw a2 = last_badge_draw a1
        \<longrightarrow> draw_mic_badge False (ticks_ms t2) a2 = Inr a2)"
proof -
  have forced: "mic a \<noteq> None \<and> theme_ok a \<longrightarrow>
      draw_mic_badge True now a =
        Inr ((badge_calls (mic_quiet a) (THEMES ! nat (theme_index a)) a)
               \<lparr>last_badge_state := Some (mic_quiet a), last_badge_draw := now\<rparr>)
      \<and> length (lcd_calls (badge_calls (mic_quiet a) (THEMES ! nat (theme_index a)) a)) =
          length (lcd_calls a) + 6"
    by (simp add: badge_forced badge_calls_trace)
  have later: "draw_mic_badge False (ticks_ms t2) b = Inr b"
    if first: "draw_mic_badge False (ticks_ms t1) a = Inr a1" "lcd_calls a1 \<noteq> lcd_calls a"
      and near: "t1 \<le> t2" "t2 - t1 < 250"
      and b: "mic b \<noteq> None" "last_badge_draw b = last_badge_draw a1"
    for b
  proof -
    have "last_badge_draw a1 = ticks_ms t1"
      using first by (rule badge_drew_stamp)
    moreover have "ticks_diff (ticks_ms t2) (ticks_ms t1) = t2 - t1"
      using near by (intro ticks_diff_exact) simp_all
    ultimately have "ticks_diff (ticks_ms t2) (last_badge_draw b) < MIC_DRAW_THROTTLE"
      using near b by (simp add: MIC_DRAW_THROTTLE_def)
    then show ?thesis
      using b(1) by (intro badge_throttled)
  qed
  have own: "draw_mic_badge False (ticks_ms t1) a = Inr a1 \<and> lcd_calls a1 \<noteq> lcd_calls a
        \<and> t1 \<le> t2 \<and> t2 - t1 < 250 \<longrightarrow>
        draw_mic_badge False (ticks_ms t2) a1 = Inr a1"
  proof
    assume h: "draw_mic_badge False (ticks_ms t1) a = Inr a1 \<and> lcd_calls a1 \<noteq> lcd_calls a
        \<and> t1 \<le> t2 \<and> t2 - t1 < 250"
    then have "mic a \<noteq> None"
      by (auto simp: draw_mic_badge_def split: if_splits)
    then have "mic a1 \<noteq> None"
      using h badge_keeps_mic [of False "ticks_ms t1" a a1] by simp
    then show "draw_mic_badge False (ticks_ms t2) a1 = Inr a1"
      using h by (intro later [of a1]) simp_all
  qed
  have other: "draw_mic_badge False (ticks_ms t1) a = Inr a1 \<and> lcd_calls a1 \<noteq> lcd_calls a
        \<and> t1 \<le> t2 \<and> t2 - t1 < 250 \<and> mic a2 \<noteq> None \<and> last_badge_draw a2 = last_badge_draw a1
        \<longrightarrow> draw_mic_badge False (ticks_ms t2) a2 = Inr a2"
    using later [of a2] by blast
  from forced own other show ?thesis
    by blast
qed

lemma demo_first_draw:
  "draw_mic_badge False (ticks_ms 300) app0 = Inr demo_drawn"
  "lcd_calls demo_drawn \<noteq> lcd_calls app0"
  by (simp_all add: draw_mic_badge_def demo_drawn_def app0_def th_def py_index_def THEMES_def
      ticks_ms_def ticks_diff_def TICKS_PERIOD_def MIC_DRAW_THROTTLE_def badge_calls_trace)

theorem badge_force_and_throttle_witness:
  "mic app0 \<noteq> None \<and> theme_ok app0
   \<and> draw_mic_badge True 100 app0 =
       Inr ((badge_calls False (THEMES ! 0) app0)\<lparr>last_badge_state := Some False,
              last_badge_draw := 100\<rparr>)
   \<and> length (lcd_calls (badge_calls False (THEMES ! 0) app0)) = 6
   \<and> draw_mic_badge False (ticks_ms 300) app0 = Inr demo_drawn
   \<and> lcd_calls demo_drawn \<noteq> lcd_calls app0
   \<and> (300::int) \<le> 500 \<and> (500::int) - 300 < 250
   \<and> draw_mic_badge False (ticks_ms 500) demo_drawn = Inr demo_drawn"
proof -
  have m: "mic app0 \<noteq> None" "theme_ok app0" "mic_quiet app0 = False" "theme_index app0 = 0"
    "lcd_calls app0 = []"
    by (simp_all add: app0_def theme_ok_def THEMES_def)
  have t: "(300::int) \<le> 500" "(500::int) - 300 < 250"
    by simp_all
  note inst = badge_force_and_throttle [of app0 100 300 demo_drawn 500 demo_drawn]
  have f: "draw_mic_badge True 100 app0 =
       Inr ((badge_calls False (THEMES ! 0) app0)\<lparr>last_badge_state := Some False,
              last_badge_draw := 100\<rparr>)"
    "length (lcd_calls (badge_calls False (THEMES ! 0) app0)) = 6"
    using inst m by simp_all
  have s: "draw_mic_badge False (ticks_ms 500) demo_drawn = Inr demo_drawn"
    using inst demo_first_draw t by blast
  from m(1,2) f demo_first_draw t s show ?thesis
    by blast
qed

text \<open>
  Two unforced requests 220 ms apart with the classification quiet at both: the first,
  100 ms after the last draw, performs no draw; the second, 320 ms after it, draws.
\<close>

theorem badge_second_request_draws_counterexample:
  "mic_quiet demo_badge
   \<and> ticks_diff 1320 1100 < MIC_DRAW_THROTTLE
   \<and> draw_mic_badge False 1100 demo_badge = Inr demo_badge
   \<and> draw_mic_badge False 1320 demo_badge =
       Inr ((badge_calls True (THEMES ! 0) demo_badge)\<lparr>last_badge_state := Some True,
              last_badge_draw := 1320\<rparr>)
   \<and> length (lcd_calls (badge_calls True (THEMES ! 0) demo_badge)) =
       length (lcd_calls demo_badge) + 6"
  by (simp add: draw_mic_badge_def demo_badge_def app0_def th_def py_index_def THEMES_def
      ticks_diff_def TICKS_PERIOD_def MIC_DRAW_THROTTLE_def badge_calls_trace)

section \<open>Properties of the communication cards\<close>

lemma same_nav_refl [simp]: "same_nav a a"
  by (simp add: same_nav_def)

lemma same_nav_trans: "same_nav a b \<Longrightarrow> same_nav b c \<Longrightarrow> same_nav a c"
  by (simp add: same_nav_def)

lemma same_nav_lcd [simp]: "same_nav a (lcd_send cs b) = same_nav a b"
  by (simp add: same_nav_def lcd_send_def)

lemma same_nav_border [simp]: "same_nav a (draw_border x y w h c b) = same_nav a b"
  by (simp add: draw_border_def)

lemma same_nav_theme: "same_nav a b \<Longrightarrow> theme_ok a \<Longrightarrow> theme_ok b"
  by (simp add: same_nav_def theme_ok_def)

lemma drawn_from_Inr [simp]: "drawn_from a (Inr b) = same_nav a b"
  by (simp add: drawn_from_def)

lemma drawn_from_then:
  assumes "drawn_from a r" and "\<And>b. same_nav a b \<Longrightarrow> drawn_from a (f b)"
  shows "drawn_from a (then_do r f)"
  using assms by (cases r) (simp_all add: drawn_from_def)

lemma same_nav_badge_calls [simp]: "same_nav a (badge_calls st t b) = same_nav a b"
  by (simp add: badge_calls_def Let_def)

lemma same_nav_stamp [simp]:
  "same_nav a (b\<lparr>last_badge_draw := n\<rparr>) = same_nav a b"
  "same_nav a (b\<lparr>last_badge_state := st\<rparr>) = same_nav a b"
  by (simp_all add: same_nav_def)

lemma badge_drawn:
  assumes "same_nav a b" and "theme_ok a"
  shows "drawn_from a (draw_mic_badge force now b)"
proof -
  have "theme_ok b"
    using assms by (rule same_nav_theme)
  then have "th b = Inr (THEMES ! nat (theme_index b))"
    by (rule th_ok)
  then show ?thesis
    using assms(1) by (simp add: draw_mic_badge_def Let_def)
qed

lemma title_bar_drawn:
  assumes "same_nav a b" and "theme_ok a"
  shows "drawn_from a (draw_title_bar title now b)"
proof -
  have "theme_ok b"
    using assms by (rule same_nav_theme)
  then have "th b = Inr (THEMES ! nat (theme_index b))"
    by (rule th_ok)
  then show ?thesis
    using assms by (simp add: draw_title_bar_def badge_drawn)
qed

lemma button_drawn:
  assumes "same_nav a b" and "theme_ok a"
  shows "drawn_from a (draw_button btn pressed b)"
proof -
  have "theme_ok b"
    using assms by (rule same_nav_theme)
  then have "th b = Inr (THEMES ! nat (theme_index b))"
    by (rule th_ok)
  then show ?thesis
    using assms by (simp add: draw_button_def Let_def)
qed

lemma indicator_drawn:
  assumes "same_nav a b" and "theme_ok a"
  shows "drawn_from a (draw_indicator s b)"
proof -
  have "theme_ok b"
    using assms by (rule same_nav_theme)
  then have "th b = Inr (THEMES ! nat (theme_index b))"
    by (rule th_ok)
  then show ?thesis
    using assms by (simp add: draw_indicator_def Let_def)
qed

lemma same_nav_lines [simp]:
  "same_nav a (draw_lines ls y cx cw sc lh fg bg b) = same_nav a b"
  by (induction ls arbitrary: y b) (simp_all add: Let_def)

lemma card_lookup:
  assumes "card_index_ok a" and "same_nav a b"
  shows "py_index (comm_cards b) (comm_card_index b) = Inr (comm_cards a ! nat (comm_card_index a))"
  using assms by (simp add: py_index_def card_index_ok_def same_nav_def Let_def)



text \<open>With a valid theme and a valid card index the card screen is drawn without exception.\<close>

lemma comm_card_drawn:
  assumes "theme_ok a" and "card_index_ok a"
  shows "drawn_from a (draw_comm_card now a)"
proof -
  obtain icon phrase bg fg where c: "comm_cards a ! nat (comm_card_index a) = (icon, phrase, bg, fg)"
    by (cases "comm_cards a ! nat (comm_card_index a)") auto
  show ?thesis
    unfolding draw_comm_card_def
    apply (simp only: th_ok [OF assms(1)] then_do_Inr)
    apply (rule drawn_from_then)
     apply (rule title_bar_drawn)
      apply simp
     apply (rule assms(1))
    apply (rule drawn_from_then)
     apply (rule button_drawn)
      apply assumption
     apply (rule assms(1))
    apply (rule drawn_from_then)
     apply (rule button_drawn)
      apply assumption
     apply (rule assms(1))
    apply (simp only: Let_def card_lookup [OF assms(2)] c then_do_Inr prod.case)
    apply (rule drawn_from_then)
     apply (rule indicator_drawn)
      apply simp
     apply (rule assms(1))
    apply (rule drawn_from_then)
     apply (rule button_drawn)
      apply simp
     apply (rule assms(1))
    apply (rule drawn_from_then)
     apply (rule button_drawn)
      apply assumption
     apply (rule assms(1))
    apply (rule button_drawn)
     apply assumption
    apply (rule assms(1))
    done
qed


lemma drawn_fromD:
  assumes "drawn_from a r"
  obtains b where "r = Inr b" and "same_nav a b"
  using assms by (cases r) (simp_all add: drawn_from_def)

lemma same_nav_index: "same_nav a b \<Longrightarrow> card_index_ok a \<Longrightarrow> card_index_ok b"
  by (simp add: same_nav_def card_index_ok_def)

lemma comm_prev_ok:
  assumes "theme_ok a" and "card_index_ok a"
  shows "\<exists>b. comm_prev now a = Inr b \<and> theme_ok b \<and> card_index_ok b \<and> comm_cards b = comm_cards a
     \<and> comm_card_index b = max 0 (comm_card_index a - 1)"
proof (cases "comm_card_index a > 0")
  case False
  then show ?thesis
    using assms by (auto simp: comm_prev_def card_index_ok_def)
next
  case True
  let ?a = "a\<lparr>comm_card_index := comm_card_index a - 1\<rparr>"
  have t: "theme_ok ?a" and i: "card_index_ok ?a"
    using assms True by (simp_all add: theme_ok_def card_index_ok_def)
  obtain b where b: "draw_comm_card now ?a = Inr b" "same_nav ?a b"
    using comm_card_drawn [OF t i, of now] by (rule drawn_fromD)
  have "theme_ok b"
    using b(2) t by (rule same_nav_theme)
  moreover have "card_index_ok b"
    using b(2) i by (rule same_nav_index)
  moreover have "comm_cards b = comm_cards a" "comm_card_index b = comm_card_index a - 1"
    using b(2) by (simp_all add: same_nav_def)
  ultimately show ?thesis
    using True b(1) by (simp add: comm_prev_def)
qed

lemma comm_next_ok:
  assumes "theme_ok a" and "card_index_ok a"
  shows "\<exists>b. comm_next now a = Inr b \<and> theme_ok b \<and> card_index_ok b \<and> comm_cards b = comm_cards a
     \<and> comm_card_index b = min (int (length (comm_cards a)) - 1) (comm_card_index a + 1)"
proof (cases "comm_card_index a < int (length (comm_cards a)) - 1")
  case False
  then show ?thesis
    using assms by (auto simp: comm_next_def card_index_ok_def)
next
  case True
  let ?a = "a\<lparr>comm_card_index := comm_card_index a + 1\<rparr>"
  have t: "theme_ok ?a" and i: "card_index_ok ?a"
    using assms True by (simp_all add: theme_ok_def card_index_ok_def)
  obtain b where b: "draw_comm_card now ?a = Inr b" "same_nav ?a b"
    using comm_card_drawn [OF t i, of now] by (rule drawn_fromD)
  have "theme_ok b"
    using b(2) t by (rule same_nav_theme)
  moreover have "card_index_ok b"
    using b(2) i by (rule same_nav_index)
  moreover have "comm_cards b = comm_cards a" "comm_card_index b = comm_card_index a + 1"
    using b(2) by (simp_all add: same_nav_def)
  ultimately show ?thesis
    using True b(1) by (simp add: comm_next_def)
qed

text \<open>Every category has a card.\<close>

lemma categories_nonempty:
  assumes "0 \<le> idx" and "idx < int (length COMM_CATEGORIES)"
  shows "fst (snd (COMM_CATEGORIES ! nat idx)) \<noteq> []"
proof -
  have "nat idx \<in> {0, 1, 2, 3, 4}"
    using assms by (auto simp: COMM_CATEGORIES_def)
  then show ?thesis
    by (auto simp: COMM_CATEGORIES_def FAV_CARDS_def CAT_NEEDS_def CAT_SENSORY_def
        CAT_RESPONSES_def CAT_FEELINGS_def)
qed

lemma open_category_ok:
  assumes "theme_ok a" and "0 \<le> idx" and "idx < int (length COMM_CATEGORIES)"
  shows "\<exists>b. open_category idx now a = Inr b \<and> theme_ok b \<and> card_index_ok b
     \<and> comm_card_index b = 0 \<and> comm_cards b = fst (snd (COMM_CATEGORIES ! nat idx))
     \<and> comm_cat_name b = fst (COMM_CATEGORIES ! nat idx)"
proof -
  obtain name cards bg fg where c: "COMM_CATEGORIES ! nat idx = (name, cards, bg, fg)"
    by (cases "COMM_CATEGORIES ! nat idx") auto
  have p: "py_index COMM_CATEGORIES idx = Inr (name, cards, bg, fg)"
    using assms(2,3) c by (simp add: py_index_def Let_def)
  have ne: "cards \<noteq> []"
    using categories_nonempty [OF assms(2,3)] c by simp
  let ?a = "a\<lparr>comm_cat_name := name, comm_cards := cards, comm_card_index := 0,
    current_screen := SCREEN_COMM_CARD\<rparr>"
  have t: "theme_ok ?a" and i: "card_index_ok ?a"
    using assms(1) ne by (simp_all add: theme_ok_def card_index_ok_def)
  obtain b where b: "draw_comm_card now ?a = Inr b" "same_nav ?a b"
    using comm_card_drawn [OF t i, of now] by (rule drawn_fromD)
  have "theme_ok b"
    using b(2) t by (rule same_nav_theme)
  moreover have "card_index_ok b"
    using b(2) i by (rule same_nav_index)
  moreover have "comm_cards b = cards" "comm_card_index b = 0" "comm_cat_name b = name"
    using b(2) by (simp_all add: same_nav_def)
  ultimately show ?thesis
    using b(1) p c by (simp add: open_category_def show_comm_card_def)
qed

lemma run_comm_ok:
  assumes "list_all valid_action (map fst acts)" and "theme_ok a" and "card_index_ok a"
  shows "\<exists>b. run_comm a acts = Inr b \<and> theme_ok b \<and> card_index_ok b"
  using assms
proof (induction acts arbitrary: a)
  case Nil
  then show ?case by simp
next
  case (Cons p acts)
  have "\<exists>b. do_action (fst p) (snd p) a = Inr b \<and> theme_ok b \<and> card_index_ok b"
  proof (cases "fst p")
    case Prev
    then show ?thesis
      using comm_prev_ok [OF Cons.prems(2,3), of "snd p"] by auto
  next
    case Next
    then show ?thesis
      using comm_next_ok [OF Cons.prems(2,3), of "snd p"] by auto
  next
    case (Open idx)
    then have "0 \<le> idx" "idx < int (length COMM_CATEGORIES)"
      using Cons.prems(1) by simp_all
    then show ?thesis
      using Open open_category_ok [OF Cons.prems(2), of idx "snd p"] by auto
  qed
  then obtain b where b: "do_action (fst p) (snd p) a = Inr b" "theme_ok b" "card_index_ok b"
    by blast
  have "list_all valid_action (map fst acts)"
    using Cons.prems(1) by simp
  then show ?case
    using Cons.IH [OF _ b(2,3)] b(1) by simp
qed

lemma app0_ok: "theme_ok app0" "card_index_ok app0"
  by (simp_all add: app0_def theme_ok_def card_index_ok_def THEMES_def FAV_CARDS_def)


text \<open>
  C8. The card index of the start state is within its list. Prev at index 0 and Next at
  the last index return the state as it is: nothing is drawn and nothing changes. With a
  valid theme index, opening one of the five categories ends with index 0 in that
  category's list, and Prev and Next from an index within bounds end with the index one
  lower or higher, stopped at 0 and at the last index. After every run of Prev, Next
  and Open actions from the start state the index is within the bounds of the active
  list.
\<close>

theorem comm_card_index_in_bounds:
  "card_index_ok app0
   \<and> (comm_card_index a = 0 \<longrightarrow> comm_prev now a = Inr a)
   \<and> (comm_card_index a = int (length (comm_cards a)) - 1 \<longrightarrow> comm_next now a = Inr a)
   \<and> (theme_ok a \<and> 0 \<le> idx \<and> idx < int (length COMM_CATEGORIES) \<longrightarrow>
        (\<exists>b. open_category idx now a = Inr b \<and> comm_card_index b = 0 \<and> card_index_ok b
           \<and> comm_cards b = fst (snd (COMM_CATEGORIES ! nat idx))))
   \<and> (theme_ok a \<and> card_index_ok a \<longrightarrow>
        (\<exists>b. comm_prev now a = Inr b \<and> card_index_ok b \<and> comm_cards b = comm_cards a
           \<and> comm_card_index b = max 0 (comm_card_index a - 1)))
   \<and> (theme_ok a \<and> card_index_ok a \<longrightarrow>
        (\<exists>b. comm_next now a = Inr b \<and> card_index_ok b \<and> comm_cards b = comm_cards a
           \<and> comm_card_index b = min (int (length (comm_cards a)) - 1) (comm_card_index a + 1)))
   \<and> (list_all valid_action (map fst acts) \<longrightarrow>
        (\<exists>b. run_comm app0 acts = Inr b \<and> card_index_ok b))"
proof -
  have p0: "comm_card_index a = 0 \<longrightarrow> comm_prev now a = Inr a"
    by (simp add: comm_prev_def)
  have n0: "comm_card_index a = int (length (comm_cards a)) - 1 \<longrightarrow> comm_next now a = Inr a"
    by (simp add: comm_next_def)
  have op: "theme_ok a \<and> 0 \<le> idx \<and> idx < int (length COMM_CATEGORIES) \<longrightarrow>
        (\<exists>b. open_category idx now a = Inr b \<and> comm_card_index b = 0 \<and> card_index_ok b
           \<and> comm_cards b = fst (snd (COMM_CATEGORIES ! nat idx)))"
    using open_category_ok [of a idx now] by blast
  have pr: "theme_ok a \<and> card_index_ok a \<longrightarrow>
        (\<exists>b. comm_prev now a = Inr b \<and> card_index_ok b \<and> comm_cards b = comm_cards a
           \<and> comm_card_index b = max 0 (comm_card_index a - 1))"
    using comm_prev_ok [of a now] by blast
  have nx: "theme_ok a \<and> card_index_ok a \<longrightarrow>
        (\<exists>b. comm_next now a = Inr b \<and> card_index_ok b \<and> comm_cards b = comm_cards a
           \<and> comm_card_index b = min (int (length (comm_cards a)) - 1) (comm_card_index a + 1))"
    using comm_next_ok [of a now] by blast
  have rn: "list_all valid_action (map fst acts) \<longrightarrow>
        (\<exists>b. run_comm app0 acts = Inr b \<and> card_index_ok b)"
    using run_comm_ok [OF _ app0_ok, of acts] by blast
  from app0_ok(2) p0 n0 op pr nx rn show ?thesis
    by blast
qed

theorem comm_card_index_in_bounds_witness:
  "card_index_ok app0 \<and> theme_ok app0
   \<and> comm_card_index app0 = 0 \<and> comm_prev 5 app0 = Inr app0
   \<and> comm_card_index demo_last = int (length (comm_cards demo_last)) - 1
   \<and> comm_next 5 demo_last = Inr demo_last
   \<and> (0::int) \<le> 2 \<and> 2 < int (length COMM_CATEGORIES)
   \<and> (case open_category 2 5 demo_last of
         Inl e \<Rightarrow> False
       | Inr b \<Rightarrow> comm_card_index b = 0 \<and> comm_cards b = CAT_SENSORY)
   \<and> card_index_ok demo_last
   \<and> (case comm_prev 5 demo_last of Inl e \<Rightarrow> False | Inr b \<Rightarrow> comm_card_index b = 4)
   \<and> (case comm_next 5 app0 of Inl e \<Rightarrow> False | Inr b \<Rightarrow> comm_card_index b = 1)
   \<and> list_all valid_action (map fst demo_actions)
   \<and> (case run_comm app0 demo_actions of Inl e \<Rightarrow> False | Inr b \<Rightarrow> card_index_ok b)"
proof -
  have l: "theme_ok demo_last" "card_index_ok demo_last" "comm_card_index demo_last = 5"
    "int (length (comm_cards demo_last)) = 6"
    by (simp_all add: demo_last_def app0_def theme_ok_def card_index_ok_def THEMES_def
        FAV_CARDS_def)
  have z: "comm_card_index app0 = 0" "int (length (comm_cards app0)) = 6"
    by (simp_all add: app0_def FAV_CARDS_def)
  have c: "(0::int) \<le> 2" "2 < int (length COMM_CATEGORIES)"
    "fst (snd (COMM_CATEGORIES ! nat 2)) = CAT_SENSORY"
    by (simp_all add: COMM_CATEGORIES_def)
  have v: "list_all valid_action (map fst demo_actions)"
    by (simp add: demo_actions_def COMM_CATEGORIES_def)
  have p: "comm_prev 5 app0 = Inr app0"
    using comm_card_index_in_bounds [of app0 5] z by blast
  have n: "comm_next 5 demo_last = Inr demo_last"
    using comm_card_index_in_bounds [of demo_last 5] l by simp
  have "\<exists>b. open_category 2 5 demo_last = Inr b \<and> comm_card_index b = 0 \<and> card_index_ok b
      \<and> comm_cards b = fst (snd (COMM_CATEGORIES ! nat 2))"
    using comm_card_index_in_bounds [of demo_last 5 2] l c by blast
  then have o: "case open_category 2 5 demo_last of
         Inl e \<Rightarrow> False
       | Inr b \<Rightarrow> comm_card_index b = 0 \<and> comm_cards b = CAT_SENSORY"
    using c(3) by auto
  have "\<exists>b. comm_prev 5 demo_last = Inr b \<and> card_index_ok b \<and> comm_cards b = comm_cards demo_last
      \<and> comm_card_index b = max 0 (comm_card_index demo_last - 1)"
    using comm_card_index_in_bounds [of demo_last 5] l by blast
  then have q: "case comm_prev 5 demo_last of Inl e \<Rightarrow> False | Inr b \<Rightarrow> comm_card_index b = 4"
    using l(3) by auto
  have "\<exists>b. comm_next 5 app0 = Inr b \<and> card_index_ok b \<and> comm_cards b = comm_cards app0
      \<and> comm_card_index b = min (int (length (comm_cards app0)) - 1) (comm_card_index app0 + 1)"
    using comm_card_index_in_bounds [of app0 5] app0_ok by blast
  then have m: "case comm_next 5 app0 of Inl e \<Rightarrow> False | Inr b \<Rightarrow> comm_card_index b = 1"
    using z by auto
  have "\<exists>b. run_comm app0 demo_actions = Inr b \<and> card_index_ok b"
    using comm_card_index_in_bounds [where acts = demo_actions] v by blast
  then have r: "case run_comm app0 demo_actions of Inl e \<Rightarrow> False | Inr b \<Rightarrow> card_index_ok b"
    by auto
  have e: "comm_card_index demo_last = int (length (comm_cards demo_last)) - 1"
    using l by simp
  from app0_ok z(1) p e n c(1,2) o l(2) q m v r show ?thesis
    by blast
qed

section \<open>Properties of the main loop\<close>

lemma poll_ok:
  assumes "theme_ok a"
  shows "\<exists>b. poll_mic_and_update_badge inp a = Inr b \<and> theme_ok b"
proof (cases "mic a")
  case None
  then show ?thesis
    using assms by (simp add: poll_mic_and_update_badge_def)
next
  case (Some m)
  let ?a = "a\<lparr>last_mic_poll := in_poll_now inp,
    mic := Some (update m (in_raw_rms inp) (in_update_now inp)),
    mic_quiet := quiet (update m (in_raw_rms inp) (in_update_now inp)),
    mic_rms := ema_rms (update m (in_raw_rms inp) (in_update_now inp))\<rparr>"
  have t: "theme_ok ?a"
    using assms by (simp add: theme_ok_def)
  obtain b where b: "draw_mic_badge False (in_badge_now inp) ?a = Inr b" "same_nav ?a b"
    using badge_drawn [OF same_nav_refl t, of False "in_badge_now inp"] by (rule drawn_fromD)
  have "theme_ok b"
    using b(2) t by (rule same_nav_theme)
  then show ?thesis
    using Some assms b(1) by (simp add: poll_mic_and_update_badge_def Let_def)
qed

lemma iteration_touched:
  assumes "theme_ok a" and "in_irq inp = 0"
  shows "main_iteration dispatch inp a = Inl AttributeError"
proof -
  obtain b where b: "poll_mic_and_update_badge inp a = Inr b"
    using poll_ok [OF assms(1)] by blast
  show ?thesis
    using assms(2)
    by (simp add: main_iteration_def b touched_def tp_call_def XPT2046_attrs_def)
qed

lemma iteration_idle:
  assumes "theme_ok a" and "in_irq inp \<noteq> 0"
  shows "\<exists>b. main_iteration dispatch inp a = Inr b \<and> theme_ok b \<and> \<not> was_down b"
proof -
  obtain b where b: "poll_mic_and_update_badge inp a = Inr b" "theme_ok b"
    using poll_ok [OF assms(1)] by blast
  show ?thesis
    using assms(2) b(2)
    by (simp add: main_iteration_def b(1) touched_def theme_ok_def)
qed

lemma loop_stops:
  assumes "theme_ok a" and "list_all (\<lambda>i. in_irq i \<noteq> 0) pre" and "in_irq inp = 0"
  shows "main_loop dispatch a (pre @ inp # post) = Inl AttributeError"
  using assms(1,2)
proof (induction pre arbitrary: a)
  case Nil
  then show ?case
    using assms(3) by (simp add: iteration_touched)
next
  case (Cons i pre)
  then obtain b where "main_iteration dispatch i a = Inr b" "theme_ok b"
    using iteration_idle [of a i dispatch] by auto
  then show ?case
    using Cons by simp
qed

text \<open>
  C1 fails on the code. With a valid theme index, an iteration in which the interrupt
  line reads 0 raises AttributeError at \<^verbatim>\<open>tp.read\<close>: the touch driver has no attribute
  of that name, and nothing in the loop catches the exception, so the loop ends at the
  first such iteration. An iteration without a touch completes with \<^verbatim>\<open>was_down\<close> false.
\<close>

theorem main_loop_ends_at_first_touch:
  "(theme_ok a \<and> in_irq inp = 0 \<longrightarrow> main_iteration dispatch inp a = Inl AttributeError)
   \<and> (theme_ok a \<and> in_irq inp \<noteq> 0 \<longrightarrow>
        (\<exists>b. main_iteration dispatch inp a = Inr b \<and> theme_ok b \<and> \<not> was_down b))
   \<and> (theme_ok a \<and> list_all (\<lambda>i. in_irq i \<noteq> 0) pre \<and> in_irq inp = 0 \<longrightarrow>
        main_loop dispatch a (pre @ inp # post) = Inl AttributeError)"
  using iteration_touched [of a inp dispatch] iteration_idle [of a inp dispatch]
    loop_stops [of a pre inp dispatch post]
  by blast

theorem main_loop_ends_at_first_touch_witness:
  "theme_ok app0 \<and> in_irq (touch_input 324) = 0
   \<and> main_iteration (\<lambda>n x y a. Inr a) (touch_input 324) app0 = Inl AttributeError
   \<and> list_all (\<lambda>i. in_irq i \<noteq> 0) [idle_input 300, idle_input 312]
   \<and> main_loop (\<lambda>n x y a. Inr a) app0
        [idle_input 300, idle_input 312, touch_input 324, idle_input 336] = Inl AttributeError"
proof -
  have h: "in_irq (touch_input 324) = 0" "list_all (\<lambda>i. in_irq i \<noteq> 0) [idle_input 300, idle_input 312]"
    by (simp_all add: touch_input_def idle_input_def)
  note inst = main_loop_ends_at_first_touch [of app0 "touch_input 324" "\<lambda>n x y a. Inr a"
      "[idle_input 300, idle_input 312]" "[idle_input 336]"]
  have i: "main_iteration (\<lambda>n x y a. Inr a) (touch_input 324) app0 = Inl AttributeError"
    using inst app0_ok(1) h(1) by blast
  have l: "main_loop (\<lambda>n x y a. Inr a) app0
        [idle_input 300, idle_input 312, touch_input 324, idle_input 336] = Inl AttributeError"
    using inst app0_ok(1) h by simp
  from app0_ok(1) h i l show ?thesis
    by blast
qed

end
